theory Spec2Isabelle
  imports Main "HOL-Library.Sublist" "HOL-Library.Monad_Syntax" "HOL-Library.Word"
begin

section \<open>Python strings\<close>

text \<open>
  A Python \<open>str\<close> is a sequence of Unicode code points; \<open>len\<close> counts code points.
  The emoji of the script are written by their code points (\<open>0x2699, 0xFE0F\<close> is the gear
  followed by the variation selector); ASCII text is written as a literal and converted
  with \<open>lit\<close>. The single quote and the backslash cannot stand in a literal and are
  written \<open>squote\<close> and \<open>backslash\<close>.
\<close>

type_synonym codepoint = nat
type_synonym str = "codepoint list"

definition lit :: "string \<Rightarrow> str" where
  "lit cs = map of_char cs"

definition squote :: str where
  "squote = [39]"

definition backslash :: str where
  "backslash = [92]"

text \<open>
  \<open>s.count(sub)\<close>: the number of non-overlapping occurrences of \<open>sub\<close> in \<open>s\<close>, scanning
  from the left; for the empty \<open>sub\<close> it is \<open>len(s) + 1\<close>.
\<close>

function str_count :: "str \<Rightarrow> str \<Rightarrow> nat" where
  "str_count s sub =
     (if sub = [] then length s + 1
      else if prefix sub s then 1 + str_count (drop (length sub) s) sub
      else (case s of [] \<Rightarrow> 0 | x # xs \<Rightarrow> str_count xs sub))"
  by pat_completeness auto
termination
  by (relation "measure (\<lambda>(s, sub). length s)") (auto simp: prefix_def)

text \<open>
  \<open>s.replace(old, new)\<close>: every non-overlapping occurrence of \<open>old\<close>, from the left, is
  replaced by \<open>new\<close>; for the empty \<open>old\<close>, \<open>new\<close> is inserted before every code point and
  at the end.
\<close>

function str_replace :: "str \<Rightarrow> str \<Rightarrow> str \<Rightarrow> str" where
  "str_replace s old new =
     (if old = [] then new @ concat (map (\<lambda>c. c # new) s)
      else if prefix old s then new @ str_replace (drop (length old) s) old new
      else (case s of [] \<Rightarrow> [] | x # xs \<Rightarrow> x # str_replace xs old new))"
  by pat_completeness auto
termination
  by (relation "measure (\<lambda>(s, old, new). length s)") (auto simp: prefix_def)

declare str_count.simps [simp del] str_replace.simps [simp del]

section \<open>The fragment of Python's \<open>re\<close> module that the script uses\<close>

text \<open>
  \<open>re.sub(pattern, repl, string)\<close> is modelled for patterns that denote one literal
  string. In a pattern, a code point outside \<open>SPECIAL_CHARS\<close> matches itself, and a
  backslash followed by a code point that is not an ASCII letter or digit matches that
  code point. Every other construct is outside the fragment (\<open>None\<close>).

  In a replacement template, \<open>parse_template\<close> turns two backslashes into one, treats a
  backslash followed by an ASCII letter or digit as a control character, a group
  reference or an error (outside the fragment, \<open>None\<close>), and leaves a backslash followed
  by any other code point as it is: both code points go to the output.
\<close>

definition SPECIAL_CHARS :: str where
  "SPECIAL_CHARS = lit ''.'' @ backslash @ lit ''[{()*+?^$|''"

definition ascii_alnum :: "codepoint \<Rightarrow> bool" where
  "ascii_alnum c \<longleftrightarrow> (48 \<le> c \<and> c \<le> 57) \<or> (65 \<le> c \<and> c \<le> 90) \<or> (97 \<le> c \<and> c \<le> 122)"

fun re_literal :: "str \<Rightarrow> str option" where
  "re_literal [] = Some []"
| "re_literal [c] = (if c \<in> set SPECIAL_CHARS then None else Some [c])"
| "re_literal (c # d # cs) =
     (if c = 92 then
        (if ascii_alnum d then None else map_option ((#) d) (re_literal cs))
      else if c \<in> set SPECIAL_CHARS then None
      else map_option ((#) c) (re_literal (d # cs)))"

fun parse_template :: "str \<Rightarrow> str option" where
  "parse_template [] = Some []"
| "parse_template [c] = (if c = 92 then None else Some [c])"
| "parse_template (c # d # cs) =
     (if c = 92 then
        (if d = 92 then map_option ((#) 92) (parse_template cs)
         else if ascii_alnum d then None
         else map_option (\<lambda>r. 92 # d # r) (parse_template cs))
      else map_option ((#) c) (parse_template (d # cs)))"

definition re_sub :: "str \<Rightarrow> str \<Rightarrow> str \<Rightarrow> str option" where
  "re_sub pattern repl string =
     (case re_literal pattern of
        None \<Rightarrow> None
      | Some p \<Rightarrow>
          (case parse_template repl of
             None \<Rightarrow> None
           | Some r \<Rightarrow> Some (str_replace string p r)))"

section \<open>The replacement pass\<close>

text \<open>The table \<open>replacements\<close>, in the order of the script.\<close>

definition replacements :: "(str \<times> str) list" where
  \<open>replacements = [
    ([0x1F517],
     lit ''<img src="icons/misc/link.svg" alt="" width="14" height="14" style="vertical-align: middle;">''),
    ([0x1F4CC],
     lit ''<img src="icons/status/pin.svg" alt="" width="14" height="14" style="vertical-align: middle;">''),
    ([0x1F4BE],
     lit ''<img src="icons/actions/save.svg" alt="" width="14" height="14" style="vertical-align: middle;">''),
    ([0x1F4E5],
     lit ''<img src="icons/actions/download.svg" alt="" width="14" height="14" style="vertical-align: middle;">''),
    ([0x1F4CA],
     lit ''<img src="icons/misc/chart-line-up.svg" alt="" width="14" height="14" style="vertical-align: middle;">''),
    ([0x1F4C8],
     lit ''<img src="icons/misc/chart-line-up.svg" alt="" width="14" height="14" style="vertical-align: middle;">''),
    ([0x1F4C9],
     lit ''<img src="icons/misc/chart-line-down.svg" alt="" width="14" height="14" style="vertical-align: middle;">''),
    ([0x1F4A1],
     lit ''<img src="icons/misc/lightbulb.svg" alt="" width="14" height="14" style="vertical-align: middle;">''),
    ([0x1F4C2],
     lit ''<img src="icons/misc/folder.svg" alt="" width="14" height="14" style="vertical-align: middle;">''),
    ([0x1F4CB],
     lit ''<img src="icons/misc/checklist.svg" alt="" width="14" height="14" style="vertical-align: middle;">''),
    ([0x1F9EE],
     lit ''<img src="icons/misc/calculator.svg" alt="" width="14" height="14" style="vertical-align: middle;">''),
    ([0x1F3AF],
     lit ''<img src="icons/misc/gameplay.svg" alt="" width="14" height="14" style="vertical-align: middle;">''),
    ([0x2694, 0xFE0F],
     lit ''<img src="icons/misc/combat.svg" alt="" width="14" height="14" style="vertical-align: middle;">''),
    ([0x270F, 0xFE0F],
     lit ''<img src="icons/actions/pencil.svg" alt="" width="14" height="14" style="vertical-align: middle;">''),
    ([0x1F5D1, 0xFE0F],
     lit ''<img src="icons/actions/trash.svg" alt="" width="14" height="14" style="vertical-align: middle;">''),
    ([0x2728],
     lit ''<img src="icons/misc/sparkles.svg" alt="" width="14" height="14" style="vertical-align: middle;">''),
    ([0x1F4CD],
     lit ''<img src="icons/story/location.svg" alt="" width="14" height="14" style="vertical-align: middle;">''),
    ([0x1F465],
     lit ''<img src="icons/misc/user.svg" alt="" width="14" height="14" style="vertical-align: middle;">''),
    ([0x23F1, 0xFE0F],
     lit ''<img src="icons/misc/calendar.svg" alt="" width="14" height="14" style="vertical-align: middle;">''),
    ([0x1F4AD],
     lit ''<img src="icons/misc/thought-bubble.svg" alt="" width="14" height="14" style="vertical-align: middle;">''),
    ([0x2795],
     lit ''<img src="icons/actions/add.svg" alt="" width="14" height="14" style="vertical-align: middle;">''),
    ([0x2796],
     lit ''<img src="icons/misc/subtract.svg" alt="" width="14" height="14" style="vertical-align: middle;">''),
    ([0x2696, 0xFE0F],
     lit ''<img src="icons/misc/scales-balance.svg" alt="" width="16" height="16" style="vertical-align: middle;">''),
    ([0x1F5A5, 0xFE0F],
     lit ''<img src="icons/misc/ui.svg" alt="" width="14" height="14" style="vertical-align: middle;">''),
    ([0x269B, 0xFE0F],
     lit ''<img src="icons/misc/physics.svg" alt="" width="14" height="14" style="vertical-align: middle;">'')
  ]\<close>

text \<open>
  The loop over the table: an entry whose symbol occurs is applied with \<open>replace\<close>.
\<close>

definition apply_replacement :: "str \<Rightarrow> str \<times> str \<Rightarrow> str" where
  "apply_replacement content = (\<lambda>(emoji, svg).
     let count = str_count content emoji
     in if count > 0 then str_replace content emoji svg else content)"

definition simple_replacements :: "str \<Rightarrow> str" where
  "simple_replacements content = foldl apply_replacement content replacements"

text \<open>
  The gear, the theme symbol that the script keeps, and the markup of the gear: as the
  catch-all writes it, and as the raw templates of the four \<open>re.sub\<close> calls write it
  (the same text with a backslash before each double quote).
\<close>

definition gear :: str where
  "gear = [0x2699, 0xFE0F]"

definition theme :: str where
  "theme = [0x1F3AD]"

definition mechanics_svg :: str where
  \<open>mechanics_svg =
     lit ''<img src="icons/navigation/mechanics.svg" alt="" width="14" height="14" style="vertical-align: middle;">''\<close>

definition mechanics_raw :: str where
  \<open>mechanics_raw =
     lit ''<img src='' @ backslash @ lit ''"icons/navigation/mechanics.svg'' @ backslash @
     lit ''" alt='' @ backslash @ lit ''"'' @ backslash @
     lit ''" width='' @ backslash @ lit ''"14'' @ backslash @
     lit ''" height='' @ backslash @ lit ''"14'' @ backslash @
     lit ''" style='' @ backslash @ lit ''"vertical-align: middle;'' @ backslash @ lit ''">''\<close>

definition icon_pattern :: str where
  "icon_pattern = lit ''icon: '' @ squote @ gear @ squote"

definition icon_repl :: str where
  "icon_repl = lit ''icon: '' @ squote @ mechanics_raw @ squote"

definition mechanic_pattern :: str where
  "mechanic_pattern = lit ''mechanic: '' @ squote @ gear @ lit '' Mechanics'' @ squote"

definition mechanic_repl :: str where
  "mechanic_repl = lit ''mechanic: '' @ squote @ mechanics_raw @ lit '' Mechanics'' @ squote"

definition instance_pattern :: str where
  "instance_pattern = lit '': '' @ squote @ gear @ lit '' Instance</span>'' @ squote"

definition instance_repl :: str where
  "instance_repl = lit '': '' @ squote @ mechanics_raw @ lit '' Instance</span>'' @ squote"

definition typeIcon_pattern :: str where
  "typeIcon_pattern =
     lit ''const typeIcon = cls'' @ backslash @ lit ''.classType === '' @ squote @
     lit ''character'' @ squote @ lit '' '' @ backslash @ lit ''? '' @ squote @ theme @ squote @
     lit '' : '' @ squote @ gear @ squote @ lit '';''"

definition typeIcon_repl :: str where
  "typeIcon_repl =
     lit ''const typeIcon = cls.classType === '' @ squote @ lit ''character'' @ squote @
     lit '' ? '' @ squote @ theme @ squote @ lit '' : '' @ squote @ mechanics_raw @ squote @
     lit '';''"

text \<open>
  The whole in-memory pass: the table, the four \<open>re.sub\<close> calls, the catch-all.
  \<open>None\<close> stands for \<open>re.error\<close>.
\<close>

definition transform :: "str \<Rightarrow> str option" where
  "transform content0 = do {
     let content = simple_replacements content0;
     content \<leftarrow> re_sub icon_pattern icon_repl content;
     content \<leftarrow> re_sub mechanic_pattern mechanic_repl content;
     content \<leftarrow> re_sub instance_pattern instance_repl content;
     content \<leftarrow> re_sub typeIcon_pattern typeIcon_repl content;
     let remaining_mechanics = str_count content gear;
     Some (if remaining_mechanics > 0 then str_replace content gear mechanics_svg else content)
   }"

text \<open>
  The symbols that the closing message of the script lists as skipped: the theme, the
  explosion, the warning sign (with its variation selector), the check mark, the four
  coloured circles and the three medals.
\<close>

definition skipped :: "str list" where
  "skipped = [[0x1F3AD], [0x1F4A5], [0x26A0, 0xFE0F], [0x2705], [0x1F534], [0x1F7E0],
     [0x1F7E1], [0x1F7E2], [0x1F947], [0x1F948], [0x1F949]]"

section \<open>The script: read, transform, write, report\<close>

text \<open>
  The file \<open>script.js\<close> is a list of bytes, or absent. \<open>open(..., 'r', encoding='utf-8')\<close>
  followed by \<open>read()\<close> decodes the bytes strictly (no overlong form, no surrogate, nothing
  above \<open>0x10FFFF\<close>) and turns \<open>\r\n\<close> and \<open>\r\<close> into \<open>\n\<close>. \<open>open(..., 'w', encoding='utf-8')\<close>
  empties the file; \<open>write\<close> encodes the whole buffer and stores it (line ends are written
  as they are, the POSIX convention). The device may fail while the bytes are stored (no
  space left, a limit on the file size, an I/O error): \<open>fault_after\<close> is the number of bytes
  that reach the file before it does, if it does; the write then raises \<open>OSError\<close> and the
  file keeps the bytes stored so far. Every exception of the script is uncaught and ends
  the run. The progress messages are not modelled, the sizes of the closing message are.
\<close>

type_synonym byte = "8 word"

datatype error =
    FileNotFoundError
  | PermissionError
  | UnicodeDecodeError
  | UnicodeEncodeError
  | OSError
  | ReError

record file_system =
  script_js :: "byte list option"
  readable :: bool
  writable :: bool
  fault_after :: "nat option"

record report =
  original_length :: nat
  new_length :: nat
  difference :: int

definition continuation :: "byte \<Rightarrow> bool" where
  "continuation b \<longleftrightarrow> 0x80 \<le> b \<and> b \<le> 0xBF"

definition low6 :: "byte \<Rightarrow> nat" where
  "low6 b = unat b mod 64"

fun utf8_decode :: "byte list \<Rightarrow> str option" where
  "utf8_decode [] = Some []"
| "utf8_decode (b0 # bs) =
     (if b0 < 0x80 then map_option ((#) (unat b0)) (utf8_decode bs)
      else if 0xC2 \<le> b0 \<and> b0 \<le> 0xDF then
        (case bs of
           b1 # rest \<Rightarrow>
             if continuation b1
             then map_option ((#) ((unat b0 - 0xC0) * 64 + low6 b1)) (utf8_decode rest)
             else None
         | _ \<Rightarrow> None)
      else if 0xE0 \<le> b0 \<and> b0 \<le> 0xEF then
        (case bs of
           b1 # b2 # rest \<Rightarrow>
             (let c = (unat b0 - 0xE0) * 4096 + low6 b1 * 64 + low6 b2
              in if continuation b1 \<and> continuation b2 \<and> 0x800 \<le> c
                    \<and> \<not> (0xD800 \<le> c \<and> c \<le> 0xDFFF)
                 then map_option ((#) c) (utf8_decode rest)
                 else None)
         | _ \<Rightarrow> None)
      else if 0xF0 \<le> b0 \<and> b0 \<le> 0xF4 then
        (case bs of
           b1 # b2 # b3 # rest \<Rightarrow>
             (let c = (unat b0 - 0xF0) * 262144 + low6 b1 * 4096 + low6 b2 * 64 + low6 b3
              in if continuation b1 \<and> continuation b2 \<and> continuation b3
                    \<and> 0x10000 \<le> c \<and> c \<le> 0x10FFFF
                 then map_option ((#) c) (utf8_decode rest)
                 else None)
         | _ \<Rightarrow> None)
      else None)"

fun universal_newlines :: "str \<Rightarrow> str" where
  "universal_newlines [] = []"
| "universal_newlines [c] = (if c = 13 then [10] else [c])"
| "universal_newlines (c # d # cs) =
     (if c = 13 \<and> d = 10 then 10 # universal_newlines cs
      else if c = 13 then 10 # universal_newlines (d # cs)
      else c # universal_newlines (d # cs))"

definition utf8_encode_codepoint :: "codepoint \<Rightarrow> byte list option" where
  "utf8_encode_codepoint c =
     (if c < 0x80 then Some [of_nat c]
      else if c < 0x800 then Some [of_nat (0xC0 + c div 64), of_nat (0x80 + c mod 64)]
      else if 0xD800 \<le> c \<and> c \<le> 0xDFFF then None
      else if c < 0x10000 then
        Some [of_nat (0xE0 + c div 4096), of_nat (0x80 + c div 64 mod 64),
              of_nat (0x80 + c mod 64)]
      else if c \<le> 0x10FFFF then
        Some [of_nat (0xF0 + c div 262144), of_nat (0x80 + c div 4096 mod 64),
              of_nat (0x80 + c div 64 mod 64), of_nat (0x80 + c mod 64)]
      else None)"

fun utf8_encode :: "str \<Rightarrow> byte list option" where
  "utf8_encode [] = Some []"
| "utf8_encode (c # cs) =
     (case utf8_encode_codepoint c of
        None \<Rightarrow> None
      | Some bs \<Rightarrow> map_option ((@) bs) (utf8_encode cs))"

definition read_file :: "file_system \<Rightarrow> error + str" where
  "read_file fs =
     (case script_js fs of
        None \<Rightarrow> Inl FileNotFoundError
      | Some bytes \<Rightarrow>
          if \<not> readable fs then Inl PermissionError
          else (case utf8_decode bytes of
                  None \<Rightarrow> Inl UnicodeDecodeError
                | Some text \<Rightarrow> Inr (universal_newlines text)))"

definition write_file :: "file_system \<Rightarrow> str \<Rightarrow> error option \<times> file_system" where
  "write_file fs content =
     (if \<not> writable fs then (Some PermissionError, fs)
      else (case utf8_encode content of
              None \<Rightarrow> (Some UnicodeEncodeError, fs\<lparr>script_js := Some []\<rparr>)
            | Some bytes \<Rightarrow>
                (case fault_after fs of
                   None \<Rightarrow> (None, fs\<lparr>script_js := Some bytes\<rparr>)
                 | Some n \<Rightarrow>
                     if n < length bytes
                     then (Some OSError, fs\<lparr>script_js := Some (take n bytes)\<rparr>)
                     else (None, fs\<lparr>script_js := Some bytes\<rparr>))))"

definition script :: "file_system \<Rightarrow> (error + report) \<times> file_system" where
  "script fs =
     (case read_file fs of
        Inl e \<Rightarrow> (Inl e, fs)
      | Inr content0 \<Rightarrow>
          let original_length = length content0 in
          (case transform content0 of
             None \<Rightarrow> (Inl ReError, fs)
           | Some content \<Rightarrow>
               (case write_file fs content of
                  (Some e, fs') \<Rightarrow> (Inl e, fs')
                | (None, fs') \<Rightarrow>
                    let new_length = length content in
                    (Inr \<lparr>original_length = original_length, new_length = new_length,
                          difference = int new_length - int original_length\<rparr>, fs'))))"

section \<open>Notions used in the proofs\<close>

text \<open>
  The literal that each \<open>re.sub\<close> pattern denotes, and the list of all thirty
  substitutions of the pass as pairs of a literal and its replacement.
\<close>

definition typeIcon_literal :: str where
  "typeIcon_literal =
     lit ''const typeIcon = cls.classType === '' @ squote @ lit ''character'' @ squote @
     lit '' ? '' @ squote @ theme @ squote @ lit '' : '' @ squote @ gear @ squote @
     lit '';''"

definition constrained :: "(str \<times> str) list" where
  "constrained = [(icon_pattern, icon_repl), (mechanic_pattern, mechanic_repl),
     (instance_pattern, instance_repl), (typeIcon_literal, typeIcon_repl)]"

definition substitute :: "str \<Rightarrow> str \<times> str \<Rightarrow> str" where
  "substitute content = (\<lambda>(old, new). str_replace content old new)"

definition substitutions :: "(str \<times> str) list" where
  "substitutions = replacements @ constrained @ [(gear, mechanics_svg)]"

text \<open>
  \<open>starts_in p u\<close>: an occurrence of \<open>p\<close> could begin at a position of \<open>u\<close>, whatever
  follows \<open>u\<close>: some non-empty suffix of \<open>u\<close> is a prefix of \<open>p\<close> or has \<open>p\<close> as a prefix.
\<close>

fun starts_in :: "str \<Rightarrow> str \<Rightarrow> bool" where
  "starts_in p [] = False"
| "starts_in p (x # xs) = (prefix p (x # xs) \<or> prefix (x # xs) p \<or> starts_in p xs)"

text \<open>
  The shape of the symbols of the table: a code point outside ASCII, other than the
  variation selector, alone or followed by the variation selector. The shape of the
  markup texts: \<open><img src="\<close>, then ASCII code points other than \<open><\<close>, \<open>>\<close> and the single
  quote, then \<open>>\<close>.
\<close>

definition symbol :: "str \<Rightarrow> bool" where
  "symbol s \<longleftrightarrow> s \<noteq> [] \<and> 128 \<le> hd s \<and> hd s \<noteq> 0xFE0F \<and> (tl s = [] \<or> tl s = [0xFE0F])"

fun tag_body :: "str \<Rightarrow> bool" where
  "tag_body [] = False"
| "tag_body [c] = (c = 62)"
| "tag_body (c # d # cs) = (c < 128 \<and> c \<noteq> 60 \<and> c \<noteq> 62 \<and> c \<noteq> 39 \<and> tag_body (d # cs))"

definition tag :: "str \<Rightarrow> bool" where
  \<open>tag m \<longleftrightarrow> prefix (lit ''<img src="'') m \<and> tag_body (tl m)\<close>

section \<open>Counting and replacing: general facts\<close>

lemma str_count_Nil [simp]: "str_count [] (p # ps) = 0"
  by (simp add: str_count.simps)

lemma str_count_Cons [simp]:
  "str_count (x # xs) (p # ps) =
     (if x = p \<and> prefix ps xs then 1 + str_count (drop (length ps) xs) (p # ps)
      else str_count xs (p # ps))"
  by (subst str_count.simps) simp

lemma str_replace_Nil [simp]: "str_replace [] (p # ps) new = []"
  by (simp add: str_replace.simps)

lemma str_replace_Cons [simp]:
  "str_replace (x # xs) (p # ps) new =
     (if x = p \<and> prefix ps xs then new @ str_replace (drop (length ps) xs) (p # ps) new
      else x # str_replace xs (p # ps) new)"
  by (subst str_replace.simps) simp

lemma str_count_prefix:
  "old \<noteq> [] \<Longrightarrow> str_count (old @ t) old = 1 + str_count t old"
  by (subst str_count.simps) simp

lemma str_replace_prefix:
  "old \<noteq> [] \<Longrightarrow> str_replace (old @ t) old new = new @ str_replace t old new"
  by (subst str_replace.simps) simp

lemma str_count_step:
  "old \<noteq> [] \<Longrightarrow> \<not> prefix old (x # xs) \<Longrightarrow> str_count (x # xs) old = str_count xs old"
  by (subst str_count.simps) simp

lemma str_replace_step:
  "old \<noteq> [] \<Longrightarrow> \<not> prefix old (x # xs) \<Longrightarrow>
   str_replace (x # xs) old new = x # str_replace xs old new"
  by (subst str_replace.simps) simp

lemma str_count_empty: "old \<noteq> [] \<Longrightarrow> str_count [] old = 0"
  by (subst str_count.simps) simp

lemma str_replace_empty: "old \<noteq> [] \<Longrightarrow> str_replace [] old new = []"
  by (subst str_replace.simps) simp

text \<open>A string is empty, begins with \<open>old\<close>, or has a first code point to step over.\<close>

lemma str_cases [case_names Nil Match Step]:
  assumes "s = [] \<Longrightarrow> P"
    and "\<And>t. s = old @ t \<Longrightarrow> P"
    and "\<And>x xs. s = x # xs \<Longrightarrow> \<not> prefix old s \<Longrightarrow> P"
  shows P
  using assms by (cases s) (auto simp: prefix_def)

lemma str_count_zero_iff:
  assumes "old \<noteq> []"
  shows "str_count s old = 0 \<longleftrightarrow> \<not> sublist old s"
proof (induction s)
  case Nil
  with assms show ?case by (simp add: str_count_empty)
next
  case (Cons x xs)
  show ?case
  proof (cases "prefix old (x # xs)")
    case True
    then obtain t where "x # xs = old @ t" by (auto simp: prefix_def)
    with assms show ?thesis by (simp add: str_count_prefix)
  next
    case False
    with assms Cons show ?thesis
      by (simp add: str_count_step sublist_Cons_right)
  qed
qed

lemma str_replace_absent:
  assumes "old \<noteq> []"
  shows "\<not> sublist old s \<Longrightarrow> str_replace s old new = s"
proof (induction s)
  case Nil
  with assms show ?case by (simp add: str_replace_empty)
next
  case (Cons x xs)
  then have "\<not> prefix old (x # xs)" "\<not> sublist old xs"
    by (auto simp: sublist_Cons_right)
  with assms Cons.IH show ?case by (simp add: str_replace_step)
qed

lemma starts_in_hd: "p \<noteq> [] \<Longrightarrow> hd p \<notin> set u \<Longrightarrow> \<not> starts_in p u"
  by (induction u) (auto simp: prefix_def neq_Nil_conv)

lemma prefix_append_comparable:
  "prefix p (u @ t) \<Longrightarrow> prefix p u \<or> prefix u p"
  by (auto simp: prefix_append)

lemma str_count_skip:
  assumes "p \<noteq> []"
  shows "\<not> starts_in p u \<Longrightarrow> str_count (u @ t) p = str_count t p"
proof (induction u)
  case Nil
  show ?case by simp
next
  case (Cons x xs)
  then have "\<not> prefix p ((x # xs) @ t)"
    using prefix_append_comparable[of p "x # xs" t] by auto
  with assms Cons show ?case by (simp add: str_count_step)
qed

lemma str_replace_skip:
  assumes "old \<noteq> []"
  shows "\<not> starts_in old u \<Longrightarrow> str_replace (u @ t) old new = u @ str_replace t old new"
proof (induction u)
  case Nil
  show ?case by simp
next
  case (Cons x xs)
  then have "\<not> prefix old ((x # xs) @ t)"
    using prefix_append_comparable[of old "x # xs" t] by auto
  with assms Cons show ?case by (simp add: str_replace_step)
qed

lemma prefix_str_replace:
  assumes "old \<noteq> []"
  shows "\<not> starts_in new p \<Longrightarrow> prefix p (str_replace s old new) \<Longrightarrow> prefix p s"
proof (induction "length s" arbitrary: s p rule: less_induct)
  case less
  show ?case
  proof (cases p)
    case Nil
    then show ?thesis by simp
  next
    case (Cons y ys)
    show ?thesis
    proof (cases rule: str_cases[where s=s and old=old])
      case Nil
      with assms less.prems show ?thesis by (simp add: str_replace_empty)
    next
      case (Match t)
      with assms less.prems(2) have "prefix p (new @ str_replace t old new)"
        by (simp add: str_replace_prefix)
      then have "prefix p new \<or> prefix new p" by (rule prefix_append_comparable)
      with Cons less.prems(1) show ?thesis by auto
    next
      case (Step x xs)
      with assms less.prems(2) Cons have "y = x" "prefix ys (str_replace xs old new)"
        by (simp_all add: str_replace_step)
      moreover have "\<not> starts_in new ys" using less.prems(1) Cons by simp
      ultimately have "prefix ys xs" using less.hyps[of xs ys] Step by simp
      with \<open>y = x\<close> Cons Step show ?thesis by simp
    qed
  qed
qed

lemma sublist_append_disjoint:
  assumes "p \<noteq> []" "set p \<inter> set u = {}"
  shows "sublist p (u @ t) \<Longrightarrow> sublist p t"
  using assms(2)
proof (induction u)
  case Nil
  then show ?case by simp
next
  case (Cons x xs)
  from assms(1) Cons.prems(2) have "\<not> prefix p (x # xs @ t)"
    by (cases p) auto
  with Cons show ?case by (auto simp: sublist_Cons_right)
qed

lemma disjoint_not_starts_in:
  "new \<noteq> [] \<Longrightarrow> set p \<inter> set new = {} \<Longrightarrow> \<not> starts_in new p"
  by (rule starts_in_hd) (auto simp: disjoint_iff)

lemma sublist_str_replace:
  assumes "old \<noteq> []" "new \<noteq> []" "p \<noteq> []" "set p \<inter> set new = {}"
  shows "sublist p (str_replace s old new) \<Longrightarrow> sublist p s"
proof (induction "length s" arbitrary: s rule: less_induct)
  case less
  show ?case
  proof (cases rule: str_cases[where s=s and old=old])
    case Nil
    with assms less.prems show ?thesis by (simp add: str_replace_empty)
  next
    case (Match t)
    with assms less.prems have "sublist p (new @ str_replace t old new)"
      by (simp add: str_replace_prefix)
    then have "sublist p (str_replace t old new)"
      using assms by (simp add: sublist_append_disjoint)
    then have "sublist p t" using less.hyps[of t] Match assms(1) by simp
    with Match show ?thesis by (simp add: sublist_append)
  next
    case (Step x xs)
    with assms less.prems have "sublist p (x # str_replace xs old new)"
      by (simp add: str_replace_step)
    then consider "prefix p (x # str_replace xs old new)" | "sublist p (str_replace xs old new)"
      by (auto simp: sublist_Cons_right)
    then show ?thesis
    proof cases
      case 1
      with Step assms(1) have "prefix p (str_replace s old new)"
        by (simp add: str_replace_step)
      then have "prefix p s"
        using prefix_str_replace[OF assms(1) disjoint_not_starts_in[OF assms(2,4)]] by blast
      then show ?thesis by (rule prefix_imp_sublist)
    next
      case 2
      then have "sublist p xs" using less.hyps[of xs] Step by simp
      with Step show ?thesis by (simp add: sublist_Cons_right)
    qed
  qed
qed

lemma not_sublist_str_replace:
  assumes "old \<noteq> []" "new \<noteq> []" "set old \<inter> set new = {}"
  shows "\<not> sublist old (str_replace s old new)"
proof (induction "length s" arbitrary: s rule: less_induct)
  case less
  show ?case
  proof (cases rule: str_cases[where s=s and old=old])
    case Nil
    with assms show ?thesis by (simp add: str_replace_empty)
  next
    case (Match t)
    have "\<not> sublist old (str_replace t old new)"
      using less.hyps[of t] Match assms(1) by simp
    then have "\<not> sublist old (new @ str_replace t old new)"
      using assms sublist_append_disjoint by blast
    with Match assms(1) show ?thesis by (simp add: str_replace_prefix)
  next
    case (Step x xs)
    have "\<not> sublist old (str_replace xs old new)"
      using less.hyps[of xs] Step by simp
    moreover have "\<not> prefix old (str_replace s old new)"
      using prefix_str_replace[OF assms(1) disjoint_not_starts_in[OF assms(2,3)]] Step(2)
      by blast
    ultimately show ?thesis
      using Step assms(1) by (simp add: str_replace_step sublist_Cons_right)
  qed
qed

lemma str_count_str_replace:
  assumes "old \<noteq> []" "m \<noteq> []"
    and h1: "\<And>t. str_count (old @ t) m = j + str_count t m"
    and h2: "\<And>t. str_count (new @ t) m = k + str_count t m"
    and h3: "\<not> starts_in old m"
    and h4: "\<not> starts_in new (tl m)"
  shows "str_count (str_replace s old new) m + j * str_count s old
         = str_count s m + k * str_count s old"
proof (induction "length s" arbitrary: s rule: less_induct)
  case less
  show ?case
  proof (cases rule: str_cases[where s=s and old=old])
    case Nil
    with assms(1,2) show ?thesis by (simp add: str_replace_empty str_count_empty)
  next
    case (Match t)
    have "str_count (str_replace t old new) m + j * str_count t old
          = str_count t m + k * str_count t old"
      using less.hyps[of t] Match assms(1) by simp
    with Match assms(1) show ?thesis
      by (simp add: str_replace_prefix str_count_prefix h1 h2)
  next
    case (Step x xs)
    show ?thesis
    proof (cases "prefix m s")
      case True
      then obtain t where t: "s = m @ t" by (auto simp: prefix_def)
      have "str_count (str_replace t old new) m + j * str_count t old
            = str_count t m + k * str_count t old"
        using less.hyps[of t] t assms(2) by simp
      with t assms(1,2) h3 show ?thesis
        by (simp add: str_replace_skip str_count_skip str_count_prefix)
    next
      case False
      have "\<not> prefix m (x # str_replace xs old new)"
      proof
        assume a: "prefix m (x # str_replace xs old new)"
        with assms(2) obtain ms where ms: "m = x # ms" "prefix ms (str_replace xs old new)"
          by (cases m) auto
        with h4 have "prefix ms xs"
          using prefix_str_replace[OF assms(1), of new ms xs] by simp
        with ms Step False show False by simp
      qed
      moreover have "str_count (str_replace xs old new) m + j * str_count xs old
            = str_count xs m + k * str_count xs old"
        using less.hyps[of xs] Step by simp
      ultimately show ?thesis
        using Step False assms(1,2) by (simp add: str_replace_step str_count_step)
    qed
  qed
qed

lemma str_count_str_replace_other:
  assumes "old \<noteq> []" "m \<noteq> []" "\<not> starts_in m old" "\<not> starts_in m new"
    "\<not> starts_in old m" "\<not> starts_in new (tl m)"
  shows "str_count (str_replace s old new) m = str_count s m"
  using str_count_str_replace[where j=0 and k=0 and old=old and new=new and m=m and s=s] assms
  by (simp add: str_count_skip)

lemma str_count_str_replace_same:
  assumes "old \<noteq> []" "m \<noteq> []" "\<not> starts_in m old"
    "\<not> starts_in old m" "\<not> starts_in m (tl m)"
  shows "str_count (str_replace s old m) m = str_count s m + str_count s old"
  using str_count_str_replace[where j=0 and k=1 and old=old and new=m and m=m and s=s] assms
  by (simp add: str_count_skip str_count_prefix)

section \<open>The pass as a list of literal substitutions\<close>

lemmas literal_defs = lit_def squote_def backslash_def gear_def theme_def

lemma re_literal_icon: "re_literal icon_pattern = Some icon_pattern"
  by (simp add: icon_pattern_def literal_defs SPECIAL_CHARS_def)

lemma re_literal_mechanic: "re_literal mechanic_pattern = Some mechanic_pattern"
  by (simp add: mechanic_pattern_def literal_defs SPECIAL_CHARS_def)

lemma re_literal_instance: "re_literal instance_pattern = Some instance_pattern"
  by (simp add: instance_pattern_def literal_defs SPECIAL_CHARS_def)

lemma re_literal_typeIcon: "re_literal typeIcon_pattern = Some typeIcon_literal"
  by (simp add: typeIcon_pattern_def typeIcon_literal_def literal_defs SPECIAL_CHARS_def
      ascii_alnum_def)

lemma parse_template_icon: "parse_template icon_repl = Some icon_repl"
  by (simp add: icon_repl_def mechanics_raw_def literal_defs ascii_alnum_def)

lemma parse_template_mechanic: "parse_template mechanic_repl = Some mechanic_repl"
  by (simp add: mechanic_repl_def mechanics_raw_def literal_defs ascii_alnum_def)

lemma parse_template_instance: "parse_template instance_repl = Some instance_repl"
  by (simp add: instance_repl_def mechanics_raw_def literal_defs ascii_alnum_def)

lemma parse_template_typeIcon: "parse_template typeIcon_repl = Some typeIcon_repl"
  by (simp add: typeIcon_repl_def mechanics_raw_def literal_defs ascii_alnum_def)

lemma apply_replacement_substitute:
  "emoji \<noteq> [] \<Longrightarrow> apply_replacement content (emoji, svg) = substitute content (emoji, svg)"
  by (simp add: apply_replacement_def substitute_def str_count_zero_iff str_replace_absent)

lemma foldl_apply_replacement:
  "\<forall>(emoji, svg) \<in> set tab. emoji \<noteq> [] \<Longrightarrow>
   foldl apply_replacement content tab = foldl substitute content tab"
  by (induction tab arbitrary: content) (auto simp: apply_replacement_substitute)

lemma replacements_nonempty_all: "list_all (\<lambda>(emoji, svg). emoji \<noteq> []) replacements"
  by (simp add: replacements_def)

lemma replacements_nonempty: "\<forall>(emoji, svg) \<in> set replacements. emoji \<noteq> []"
  using replacements_nonempty_all by (simp add: list_all_iff)

lemma catch_all_substitute:
  "(if str_count content gear > 0 then str_replace content gear mechanics_svg else content)
   = substitute content (gear, mechanics_svg)"
proof -
  have "gear \<noteq> []" by (simp add: gear_def)
  then show ?thesis
    by (simp add: substitute_def str_count_zero_iff str_replace_absent)
qed

lemma transform_substitutions: "transform content = Some (foldl substitute content substitutions)"
  by (simp add: transform_def re_sub_def re_literal_icon re_literal_mechanic re_literal_instance
      re_literal_typeIcon parse_template_icon parse_template_mechanic parse_template_instance
      parse_template_typeIcon catch_all_substitute simple_replacements_def
      foldl_apply_replacement[OF replacements_nonempty] substitutions_def constrained_def
      substitute_def)

section \<open>No symbol of the pass survives it\<close>

lemma substitute_pair: "substitute x (old, new) = str_replace x old new"
  by (simp add: substitute_def)

lemma foldl_substitute_absent:
  "\<forall>(old, new) \<in> set rs. old \<noteq> [] \<and> \<not> sublist old x \<Longrightarrow> foldl substitute x rs = x"
  by (induction rs) (auto simp: substitute_pair str_replace_absent)

lemma foldl_substitute_removes:
  assumes "p \<noteq> []"
  shows "\<forall>(old, new) \<in> set rs. old \<noteq> [] \<and> new \<noteq> [] \<and> set p \<inter> set new = {} \<Longrightarrow>
         \<not> sublist p x \<or> p \<in> fst ` set rs \<Longrightarrow>
         \<not> sublist p (foldl substitute x rs)"
proof (induction rs arbitrary: x)
  case Nil
  then show ?case by simp
next
  case (Cons r rs)
  obtain old new where r: "r = (old, new)" by (cases r)
  from Cons.prems(1) r have ne: "old \<noteq> []" "new \<noteq> []" "set p \<inter> set new = {}"
    by auto
  have rest: "\<forall>(old, new) \<in> set rs. old \<noteq> [] \<and> new \<noteq> [] \<and> set p \<inter> set new = {}"
    using Cons.prems(1) by simp
  have "\<not> sublist p (str_replace x old new) \<or> p \<in> fst ` set rs"
  proof (cases "sublist p x")
    case False
    then show ?thesis using sublist_str_replace[OF ne(1,2) assms ne(3)] by blast
  next
    case True
    with Cons.prems(2) r have "p = old \<or> p \<in> fst ` set rs" by auto
    then show ?thesis using not_sublist_str_replace[OF ne(1,2)] ne(3) by auto
  qed
  then have "\<not> sublist p (foldl substitute (str_replace x old new) rs)"
    using Cons.IH[OF rest] by blast
  then show ?case by (simp add: r substitute_pair)
qed

text \<open>
  Every replacement text of the pass is non-empty and made of ASCII code points and the
  theme symbol; the symbols that are replaced are made of other code points.
\<close>

lemma substitutions_texts_all:
  "list_all (\<lambda>(old, new). old \<noteq> [] \<and> new \<noteq> []
     \<and> list_all (\<lambda>c. c < 128 \<or> c = 0x1F3AD) new) substitutions"
  by (simp add: substitutions_def replacements_def constrained_def icon_pattern_def
      icon_repl_def mechanic_pattern_def mechanic_repl_def instance_pattern_def
      instance_repl_def typeIcon_literal_def typeIcon_repl_def mechanics_raw_def
      mechanics_svg_def literal_defs)

lemma substitutions_texts:
  "\<forall>(old, new) \<in> set substitutions. old \<noteq> [] \<and> new \<noteq> []
     \<and> (\<forall>c \<in> set new. c < 128 \<or> c = 0x1F3AD)"
  using substitutions_texts_all by (simp add: list_all_iff)

lemma replacements_symbols_all:
  "list_all (\<lambda>(emoji, svg). list_all (\<lambda>c. 128 \<le> c \<and> c \<noteq> 0x1F3AD) emoji) replacements"
  by (simp add: replacements_def)

lemma replacements_symbols:
  "\<forall>(emoji, svg) \<in> set replacements. \<forall>c \<in> set emoji. 128 \<le> c \<and> c \<noteq> 0x1F3AD"
  using replacements_symbols_all by (simp add: list_all_iff)

lemma symbol_removed:
  assumes "p \<noteq> []" "\<forall>c \<in> set p. 128 \<le> c \<and> c \<noteq> 0x1F3AD" "p \<in> fst ` set substitutions"
  shows "\<not> sublist p (foldl substitute x substitutions)"
proof (rule foldl_substitute_removes[OF assms(1)])
  show "\<forall>(old, new) \<in> set substitutions. old \<noteq> [] \<and> new \<noteq> [] \<and> set p \<inter> set new = {}"
    using substitutions_texts assms(2) by fastforce
  show "\<not> sublist p x \<or> p \<in> fst ` set substitutions" using assms(3) by simp
qed

lemma gear_removed: "\<not> sublist gear (foldl substitute x substitutions)"
  by (rule symbol_removed) (simp_all add: gear_def substitutions_def)

lemma emoji_removed:
  assumes "(emoji, svg) \<in> set replacements"
  shows "\<not> sublist emoji (foldl substitute x substitutions)"
proof (rule symbol_removed)
  show "emoji \<noteq> []" using assms replacements_nonempty by auto
  show "\<forall>c \<in> set emoji. 128 \<le> c \<and> c \<noteq> 0x1F3AD" using assms replacements_symbols by auto
  show "emoji \<in> fst ` set substitutions" using assms by (force simp: substitutions_def)
qed

lemma constrained_contain_gear: "\<forall>(old, new) \<in> set constrained. sublist gear old"
  by (simp add: constrained_def icon_pattern_def mechanic_pattern_def instance_pattern_def
      typeIcon_literal_def sublist_append)

lemma constrained_nonempty: "\<forall>(old, new) \<in> set constrained. old \<noteq> []"
  by (simp add: constrained_def icon_pattern_def mechanic_pattern_def instance_pattern_def
      typeIcon_literal_def literal_defs)

lemma substitutions_absent:
  "\<forall>(old, new) \<in> set substitutions.
     old \<noteq> [] \<and> \<not> sublist old (foldl substitute x substitutions)"
proof -
  have "old \<noteq> [] \<and> \<not> sublist old (foldl substitute x substitutions)"
    if "(old, new) \<in> set substitutions" for old new
  proof -
    from that consider "(old, new) \<in> set replacements" | "(old, new) \<in> set constrained"
      | "old = gear" by (auto simp: substitutions_def)
    then show ?thesis
    proof cases
      case 1
      then show ?thesis using emoji_removed replacements_nonempty by auto
    next
      case 2
      then have "sublist gear old" "old \<noteq> []"
        using constrained_contain_gear constrained_nonempty by auto
      then show ?thesis using gear_removed[of x] sublist_order.order_trans by blast
    next
      case 3
      then show ?thesis using gear_removed by (simp add: gear_def)
    qed
  qed
  then show ?thesis by auto
qed

text \<open>
  Claim C1. The pass is idempotent: for every input document it succeeds, and applied to
  its own output it succeeds again and returns that output unchanged.
\<close>

theorem transform_idempotent:
  "\<exists>out. transform content = Some out \<and> transform out = Some out"
  by (simp add: transform_substitutions foldl_substitute_absent[OF substitutions_absent])

section \<open>Lengths\<close>

lemma length_str_replace:
  assumes "old \<noteq> []" "length old \<le> length new"
  shows "length s \<le> length (str_replace s old new)"
proof (induction "length s" arbitrary: s rule: less_induct)
  case less
  show ?case
  proof (cases rule: str_cases[where s=s and old=old])
    case Nil
    then show ?thesis by simp
  next
    case (Match t)
    have "length t \<le> length (str_replace t old new)"
      using less.hyps[of t] Match assms(1) by simp
    with Match assms show ?thesis by (simp add: str_replace_prefix)
  next
    case (Step x xs)
    have "length xs \<le> length (str_replace xs old new)"
      using less.hyps[of xs] Step by simp
    with Step assms(1) show ?thesis by (simp add: str_replace_step)
  qed
qed

lemma length_foldl_substitute:
  "\<forall>(old, new) \<in> set rs. old \<noteq> [] \<and> length old \<le> length new \<Longrightarrow>
   length x \<le> length (foldl substitute x rs)"
proof (induction rs arbitrary: x)
  case Nil
  show ?case by simp
next
  case (Cons r rs)
  obtain old new where r: "r = (old, new)" by (cases r)
  with Cons.prems have "length x \<le> length (str_replace x old new)"
    by (simp add: length_str_replace)
  also have "\<dots> \<le> length (foldl substitute (str_replace x old new) rs)"
    using Cons by simp
  finally show ?case by (simp add: r substitute_pair)
qed

lemma substitutions_longer_all:
  "list_all (\<lambda>(old, new). old \<noteq> [] \<and> length old < length new) substitutions"
  by (simp add: substitutions_def replacements_def constrained_def icon_pattern_def
      icon_repl_def mechanic_pattern_def mechanic_repl_def instance_pattern_def
      instance_repl_def typeIcon_literal_def typeIcon_repl_def mechanics_raw_def
      mechanics_svg_def literal_defs)

lemma length_transform:
  "\<exists>out. transform content = Some out \<and> length content \<le> length out"
proof -
  have "\<forall>(old, new) \<in> set substitutions. old \<noteq> [] \<and> length old \<le> length new"
    using substitutions_longer_all by (auto simp: list_all_iff)
  then show ?thesis
    by (simp add: transform_substitutions length_foldl_substitute)
qed

section \<open>The pass on particular inputs\<close>

lemma str_replace_self: "old \<noteq> [] \<Longrightarrow> str_replace old old new = new"
  using str_replace_prefix[of old "[]" new] by (simp add: str_replace_empty)

lemma sublist_set_subset: "sublist p x \<Longrightarrow> set p \<subseteq> set x"
  by (auto simp: sublist_def)

lemma str_replace_char_absent:
  "c \<in> set old \<Longrightarrow> c \<notin> set x \<Longrightarrow> str_replace x old new = x"
  using sublist_set_subset[of old x] by (intro str_replace_absent) auto

text \<open>
  A text made of ASCII code points and the theme symbol contains none of the thirty
  literals, so every substitution leaves it as it is.
\<close>

lemma substitutions_marked:
  assumes "(old, new) \<in> set substitutions"
  shows "\<exists>c \<in> set old. 128 \<le> c \<and> c \<noteq> 0x1F3AD"
proof -
  from assms consider "(old, new) \<in> set replacements" | "(old, new) \<in> set constrained"
    | "old = gear" by (auto simp: substitutions_def)
  then show ?thesis
  proof cases
    case 1
    then have "old \<noteq> []" "\<forall>c \<in> set old. 128 \<le> c \<and> c \<noteq> 0x1F3AD"
      using replacements_nonempty replacements_symbols by auto
    then show ?thesis by (cases old) auto
  next
    case 2
    then have "set gear \<subseteq> set old"
      using constrained_contain_gear sublist_set_subset by fastforce
    then have "0x2699 \<in> set old" by (simp add: gear_def)
    then show ?thesis by (intro bexI[of _ "0x2699"]) simp_all
  next
    case 3
    then show ?thesis by (simp add: gear_def)
  qed
qed

lemma plain_fixpoint:
  assumes "\<forall>c \<in> set x. c < 128 \<or> c = 0x1F3AD" "set rs \<subseteq> set substitutions"
  shows "foldl substitute x rs = x"
proof (rule foldl_substitute_absent, clarify)
  fix old new
  assume "(old, new) \<in> set rs"
  with assms(2) obtain c where c: "c \<in> set old" "128 \<le> c" "c \<noteq> 0x1F3AD"
    using substitutions_marked by blast
  with assms(1) have "c \<notin> set x" by auto
  with c(1) show "old \<noteq> [] \<and> \<not> sublist old x"
    using sublist_set_subset[of old x] by auto
qed

lemma replacement_text_plain:
  "(old, new) \<in> set substitutions \<Longrightarrow> \<forall>c \<in> set new. c < 128 \<or> c = 0x1F3AD"
  using substitutions_texts by auto

text \<open>
  The heads of the symbols of the table: none is the gear, the variation selector, the theme
  symbol or an ASCII code point. A text made of those is left alone by the table.
\<close>

lemma replacements_heads_all:
  "list_all (\<lambda>(emoji, svg). 128 \<le> hd emoji \<and> hd emoji \<noteq> 0x2699 \<and> hd emoji \<noteq> 0xFE0F
     \<and> hd emoji \<noteq> 0x1F3AD) replacements"
  by (simp add: replacements_def)

lemma simple_replacements_quiet:
  assumes "\<forall>c \<in> set x. c < 128 \<or> c = 0x2699 \<or> c = 0xFE0F \<or> c = 0x1F3AD"
  shows "foldl substitute x replacements = x"
proof (rule foldl_substitute_absent, clarify)
  fix emoji svg
  assume m: "(emoji, svg) \<in> set replacements"
  then have ne: "emoji \<noteq> []" using replacements_nonempty by auto
  from m have "128 \<le> hd emoji \<and> hd emoji \<noteq> 0x2699 \<and> hd emoji \<noteq> 0xFE0F \<and> hd emoji \<noteq> 0x1F3AD"
    using replacements_heads_all by (auto simp: list_all_iff)
  with assms have "hd emoji \<notin> set x" by auto
  moreover have "hd emoji \<in> set emoji" using ne by simp
  ultimately have "\<not> set emoji \<subseteq> set x" by blast
  then show "emoji \<noteq> [] \<and> \<not> sublist emoji x"
    using ne sublist_set_subset[of emoji x] by blast
qed

lemma transform_split:
  "transform x = Some (substitute (foldl substitute (foldl substitute x replacements) constrained)
     (gear, mechanics_svg))"
  by (simp add: transform_substitutions substitutions_def)

text \<open>The four inputs that consist of one constrained literal.\<close>

lemma icon_pattern_quiet:
  "\<forall>c \<in> set icon_pattern. c < 128 \<or> c = 0x2699 \<or> c = 0xFE0F \<or> c = 0x1F3AD"
  by (simp add: icon_pattern_def literal_defs)

lemma constrained_subset: "set (drop n constrained) \<subseteq> set substitutions"
  using set_drop_subset[of n constrained] by (auto simp: substitutions_def)

lemma catch_all_member: "(gear, mechanics_svg) \<in> set substitutions"
  by (simp add: substitutions_def)

lemma transform_icon: "transform icon_pattern = Some icon_repl"
proof -
  have ne: "icon_pattern \<noteq> []" by (simp add: icon_pattern_def literal_defs)
  have p: "\<forall>c \<in> set icon_repl. c < 128 \<or> c = 0x1F3AD"
    by (rule replacement_text_plain[of icon_pattern]) (simp add: substitutions_def constrained_def)
  have "foldl substitute icon_pattern constrained
        = foldl substitute icon_repl (drop 1 constrained)"
    by (simp add: constrained_def substitute_pair str_replace_self[OF ne])
  also have "\<dots> = icon_repl" by (rule plain_fixpoint[OF p constrained_subset])
  finally have "foldl substitute icon_pattern constrained = icon_repl" .
  moreover have "substitute icon_repl (gear, mechanics_svg) = icon_repl"
    using plain_fixpoint[OF p, of "[(gear, mechanics_svg)]"] catch_all_member by simp
  ultimately show ?thesis
    by (simp add: transform_split simple_replacements_quiet[OF icon_pattern_quiet])
qed

lemma mechanic_pattern_quiet:
  "\<forall>c \<in> set mechanic_pattern. c < 128 \<or> c = 0x2699 \<or> c = 0xFE0F \<or> c = 0x1F3AD"
  by (simp add: mechanic_pattern_def literal_defs)

lemma typeIcon_literal_quiet:
  "\<forall>c \<in> set typeIcon_literal. c < 128 \<or> c = 0x2699 \<or> c = 0xFE0F \<or> c = 0x1F3AD"
  by (simp add: typeIcon_literal_def literal_defs)

lemma mechanic_no_icon: "str_replace mechanic_pattern icon_pattern new = mechanic_pattern"
  by (simp add: mechanic_pattern_def icon_pattern_def literal_defs)

lemma typeIcon_no_icon: "str_replace typeIcon_literal icon_pattern new = typeIcon_literal"
  by (simp add: typeIcon_literal_def icon_pattern_def literal_defs)

lemma typeIcon_no_mechanic: "str_replace typeIcon_literal mechanic_pattern new = typeIcon_literal"
  by (simp add: typeIcon_literal_def mechanic_pattern_def literal_defs)

lemma typeIcon_no_instance: "str_replace typeIcon_literal instance_pattern new = typeIcon_literal"
  by (simp add: typeIcon_literal_def instance_pattern_def literal_defs)

lemma transform_mechanic: "transform mechanic_pattern = Some mechanic_repl"
proof -
  have ne: "mechanic_pattern \<noteq> []" by (simp add: mechanic_pattern_def literal_defs)
  have p: "\<forall>c \<in> set mechanic_repl. c < 128 \<or> c = 0x1F3AD"
    by (rule replacement_text_plain[of mechanic_pattern])
      (simp add: substitutions_def constrained_def)
  have "foldl substitute mechanic_pattern constrained
        = foldl substitute mechanic_repl (drop 2 constrained)"
    by (simp add: constrained_def substitute_pair mechanic_no_icon str_replace_self[OF ne])
  also have "\<dots> = mechanic_repl" by (rule plain_fixpoint[OF p constrained_subset])
  finally have "foldl substitute mechanic_pattern constrained = mechanic_repl" .
  moreover have "substitute mechanic_repl (gear, mechanics_svg) = mechanic_repl"
    using plain_fixpoint[OF p, of "[(gear, mechanics_svg)]"] catch_all_member by simp
  ultimately show ?thesis
    by (simp add: transform_split simple_replacements_quiet[OF mechanic_pattern_quiet])
qed

lemma transform_typeIcon: "transform typeIcon_literal = Some typeIcon_repl"
proof -
  have ne: "typeIcon_literal \<noteq> []" by (simp add: typeIcon_literal_def literal_defs)
  have p: "\<forall>c \<in> set typeIcon_repl. c < 128 \<or> c = 0x1F3AD"
    by (rule replacement_text_plain[of typeIcon_literal])
      (simp add: substitutions_def constrained_def)
  have "foldl substitute typeIcon_literal constrained = typeIcon_repl"
    by (simp add: constrained_def substitute_pair typeIcon_no_icon typeIcon_no_mechanic
        typeIcon_no_instance str_replace_self[OF ne])
  moreover have "substitute typeIcon_repl (gear, mechanics_svg) = typeIcon_repl"
    using plain_fixpoint[OF p, of "[(gear, mechanics_svg)]"] catch_all_member by simp
  ultimately show ?thesis
    by (simp add: transform_split simple_replacements_quiet[OF typeIcon_literal_quiet])
qed

text \<open>An input on which one entry of a table applies and leaves a text that no entry matches.\<close>

lemma foldl_substitute_single:
  assumes "e \<noteq> []"
    and "\<forall>(old, new) \<in> set tab. old \<noteq> [] \<and> \<not> sublist old (str_replace x e m)"
  shows "(e, m) \<in> set tab \<Longrightarrow>
         \<forall>(old, new) \<in> set tab. if old = e then new = m else \<not> sublist old x \<Longrightarrow>
         foldl substitute x tab = str_replace x e m"
  using assms(2)
proof (induction tab)
  case Nil
  then show ?case by simp
next
  case (Cons r rs)
  obtain old new where r: "r = (old, new)" by (cases r)
  show ?case
  proof (cases "old = e")
    case True
    with Cons.prems(2) r have "new = m" by simp
    moreover have "foldl substitute (str_replace x e m) rs = str_replace x e m"
      using Cons.prems(3) by (intro foldl_substitute_absent) simp
    ultimately show ?thesis using True r by (simp add: substitute_pair)
  next
    case False
    with Cons.prems(2,3) r have "str_replace x old new = x"
      by (intro str_replace_absent) auto
    moreover have "(e, m) \<in> set rs" using Cons.prems(1) False r by auto
    ultimately show ?thesis using Cons r by (simp add: substitute_pair)
  qed
qed

lemma plain_absent:
  assumes "\<forall>c \<in> set y. c < 128 \<or> c = 0x1F3AD"
  shows "\<forall>(old, new) \<in> set substitutions. old \<noteq> [] \<and> \<not> sublist old y"
proof clarify
  fix old new
  assume "(old, new) \<in> set substitutions"
  then obtain c where c: "c \<in> set old" "128 \<le> c" "c \<noteq> 0x1F3AD"
    using substitutions_marked by blast
  with assms have "c \<notin> set y" by auto
  with c(1) show "old \<noteq> [] \<and> \<not> sublist old y"
    using sublist_set_subset[of old y] by auto
qed

text \<open>No replacement text of the pass contains a literal that the pass replaces.\<close>

lemma replacement_texts_match_nothing:
  assumes "(old, new) \<in> set substitutions" "(old', new') \<in> set substitutions"
  shows "\<not> sublist old' new"
  using plain_absent[OF replacement_text_plain[OF assms(1)]] assms(2) by blast

lemma transform_single:
  assumes "(e, m) \<in> set replacements"
    and "list_all (\<lambda>(old, new). if old = e then new = m else hd old \<notin> set x) replacements"
    and "\<forall>c \<in> set (str_replace x e m). c < 128 \<or> c = 0x1F3AD"
  shows "transform x = Some (str_replace x e m)"
proof -
  let ?y = "str_replace x e m"
  have ne: "e \<noteq> []" using assms(1) replacements_nonempty by auto
  have abs: "\<forall>(old, new) \<in> set replacements. old \<noteq> [] \<and> \<not> sublist old ?y"
    using plain_absent[OF assms(3)] by (auto simp: substitutions_def)
  have "\<forall>(old, new) \<in> set replacements. if old = e then new = m else \<not> sublist old x"
  proof clarify
    fix old new
    assume m: "(old, new) \<in> set replacements"
    then have "hd old \<in> set old" using replacements_nonempty by auto
    moreover from m assms(2) have "if old = e then new = m else hd old \<notin> set x"
      by (auto simp: list_all_iff)
    ultimately show "if old = e then new = m else \<not> sublist old x"
      using sublist_set_subset[of old x] by (auto split: if_splits)
  qed
  then have "foldl substitute x replacements = ?y"
    by (rule foldl_substitute_single[OF ne abs assms(1)])
  moreover have "foldl substitute ?y (constrained @ [(gear, mechanics_svg)]) = ?y"
    by (rule plain_fixpoint[OF assms(3)]) (auto simp: substitutions_def)
  ultimately show ?thesis by (simp add: transform_substitutions substitutions_def)
qed

lemma replacements_plain:
  "(e, m) \<in> set replacements \<Longrightarrow> \<forall>c \<in> set m. c < 128 \<or> c = 0x1F3AD"
  by (rule replacement_text_plain[of e]) (simp add: substitutions_def)

lemma transform_chart:
  \<open>transform [0x1F4C8] =
     Some (lit ''<img src="icons/misc/chart-line-up.svg" alt="" width="14" height="14" style="vertical-align: middle;">'')\<close>
  (is "transform ?x = Some ?m")
proof -
  have m: "(?x, ?m) \<in> set replacements" by (simp add: replacements_def)
  have r: "str_replace ?x ?x ?m = ?m" by (rule str_replace_self) simp
  have "transform ?x = Some (str_replace ?x ?x ?m)"
  proof (rule transform_single[OF m])
    show "list_all (\<lambda>(old, new). if old = ?x then new = ?m else hd old \<notin> set ?x) replacements"
      by (simp add: replacements_def)
    show "\<forall>c \<in> set (str_replace ?x ?x ?m). c < 128 \<or> c = 0x1F3AD"
      unfolding r by (rule replacements_plain[OF m])
  qed
  then show ?thesis by (simp only: r)
qed

lemma transform_links:
  \<open>transform [0x1F517, 0x1F517, 0x1F517] =
     Some (lit ''<img src="icons/misc/link.svg" alt="" width="14" height="14" style="vertical-align: middle;">''
        @ lit ''<img src="icons/misc/link.svg" alt="" width="14" height="14" style="vertical-align: middle;">''
        @ lit ''<img src="icons/misc/link.svg" alt="" width="14" height="14" style="vertical-align: middle;">'')\<close>
  (is "transform ?x = Some (?m @ ?m @ ?m)")
proof -
  have m: "([0x1F517], ?m) \<in> set replacements" by (simp add: replacements_def)
  have r: "str_replace ?x [0x1F517] ?m = ?m @ ?m @ ?m" by simp
  have "transform ?x = Some (str_replace ?x [0x1F517] ?m)"
  proof (rule transform_single[OF m])
    show "list_all (\<lambda>(old, new). if old = [0x1F517] then new = ?m else hd old \<notin> set ?x)
            replacements"
      by (simp add: replacements_def)
    show "\<forall>c \<in> set (str_replace ?x [0x1F517] ?m). c < 128 \<or> c = 0x1F3AD"
      unfolding r using replacements_plain[OF m] by auto
  qed
  then show ?thesis by (simp only: r)
qed

section \<open>The script\<close>

lemma utf8_encode_plain:
  "\<forall>c \<in> set x. c < 128 \<or> c = 0x1F3AD \<Longrightarrow> \<exists>bytes. utf8_encode x = Some bytes"
  by (induction x) (auto simp: utf8_encode_codepoint_def)

lemma length_lit: "length (lit cs) = length cs"
  by (simp add: lit_def)

lemma decode_links:
  "utf8_decode [0xF0, 0x9F, 0x94, 0x97, 0xF0, 0x9F, 0x94, 0x97, 0xF0, 0x9F, 0x94, 0x97]
   = Some [0x1F517, 0x1F517, 0x1F517]"
  by (simp add: continuation_def low6_def)

lemma decode_invalid: "utf8_decode [0xFF] = None"
  by simp

lemma script_read_error: "read_file fs = Inl e \<Longrightarrow> script fs = (Inl e, fs)"
  by (simp add: script_def)

lemma script_changes:
  assumes "snd (script fs) \<noteq> fs"
  shows "\<exists>content out. read_file fs = Inr content \<and> transform content = Some out
           \<and> writable fs \<and> snd (script fs) = snd (write_file fs out)"
  using assms
  by (auto simp: script_def write_file_def Let_def split: sum.splits option.splits prod.splits
      if_splits)

lemma script_report:
  assumes "script fs = (Inr r, fs')"
  shows "\<exists>content out. read_file fs = Inr content \<and> transform content = Some out
           \<and> original_length r = length content \<and> new_length r = length out
           \<and> difference r = int (length out) - int (length content)"
  using assms
  by (auto simp: script_def Let_def split: sum.splits option.splits prod.splits)

lemma script_links:
  "fst (script \<lparr>script_js = Some [0xF0, 0x9F, 0x94, 0x97, 0xF0, 0x9F, 0x94, 0x97,
                                    0xF0, 0x9F, 0x94, 0x97],
                 readable = True, writable = True, fault_after = None\<rparr>)
   = Inr \<lparr>original_length = 3, new_length = 279, difference = 276\<rparr>"
  (is "fst (script ?fs) = _")
proof -
  let ?m = \<open>lit ''<img src="icons/misc/link.svg" alt="" width="14" height="14" style="vertical-align: middle;">''\<close>
  have rd: "read_file ?fs = Inr [0x1F517, 0x1F517, 0x1F517]"
    by (simp add: read_file_def decode_links del: utf8_decode.simps)
  have "([0x1F517], ?m) \<in> set replacements" by (simp add: replacements_def)
  then have "\<forall>c \<in> set (?m @ ?m @ ?m). c < 128 \<or> c = 0x1F3AD"
    using replacements_plain by auto
  then obtain bytes where "utf8_encode (?m @ ?m @ ?m) = Some bytes"
    using utf8_encode_plain by blast
  then show ?thesis
    by (simp add: script_def rd transform_links write_file_def length_lit)
qed

lemma utf8_encode_ascii: "\<forall>c \<in> set x. c < 128 \<Longrightarrow> utf8_encode x = Some (map of_nat x)"
  by (induction x) (auto simp: utf8_encode_codepoint_def)

lemma length_utf8_encode: "utf8_encode x = Some bytes \<Longrightarrow> length x \<le> length bytes"
proof (induction x arbitrary: bytes)
  case Nil
  then show ?case by simp
next
  case (Cons c cs)
  then obtain b bs where "utf8_encode_codepoint c = Some b" "utf8_encode cs = Some bs"
    "bytes = b @ bs"
    by (auto split: option.splits)
  moreover from this have "1 \<le> length b"
    by (auto simp: utf8_encode_codepoint_def split: if_splits)
  ultimately show ?case using Cons.IH[of bs] by simp
qed

lemma mechanics_raw_differs: "mechanics_raw \<noteq> mechanics_svg"
proof
  assume "mechanics_raw = mechanics_svg"
  then have "length mechanics_raw = length mechanics_svg" by simp
  then show False
    by (simp add: mechanics_raw_def mechanics_svg_def backslash_def length_lit)
qed

lemma script_links_state:
  "snd (script \<lparr>script_js = Some [0xF0, 0x9F, 0x94, 0x97, 0xF0, 0x9F, 0x94, 0x97,
                                    0xF0, 0x9F, 0x94, 0x97],
                 readable = True, writable = True, fault_after = None\<rparr>)
   \<noteq> \<lparr>script_js = Some [0xF0, 0x9F, 0x94, 0x97, 0xF0, 0x9F, 0x94, 0x97,
                         0xF0, 0x9F, 0x94, 0x97],
      readable = True, writable = True, fault_after = None\<rparr>"
  (is "snd (script ?fs) \<noteq> ?fs")
proof -
  let ?m = \<open>lit ''<img src="icons/misc/link.svg" alt="" width="14" height="14" style="vertical-align: middle;">''\<close>
  have rd: "read_file ?fs = Inr [0x1F517, 0x1F517, 0x1F517]"
    by (simp add: read_file_def decode_links del: utf8_decode.simps)
  have "([0x1F517], ?m) \<in> set replacements" by (simp add: replacements_def)
  then have "\<forall>c \<in> set (?m @ ?m @ ?m). c < 128 \<or> c = 0x1F3AD"
    using replacements_plain by auto
  then obtain bytes where b: "utf8_encode (?m @ ?m @ ?m) = Some bytes"
    using utf8_encode_plain by blast
  have "length (?m @ ?m @ ?m) \<le> length bytes"
    using b by (rule length_utf8_encode)
  then have "length bytes \<ge> 279" by (simp add: length_lit)
  then show ?thesis
    by (auto simp add: script_def rd transform_links write_file_def b)
qed

text \<open>
  Claim C7. The sizes of the closing message are numbers of code points, not of bytes. On a
  file holding three link symbols, twelve bytes of UTF-8, the script records 3 as the
  original size and reports a difference of 276, that is three times the 93 code points
  of the markup less one code point for each symbol; in bytes the difference would be
  \<open>3 * (93 - 4) = 267\<close>, as the symbol takes four bytes.
\<close>

theorem report_counts_code_points:
  \<open>fst (script \<lparr>script_js = Some [0xF0, 0x9F, 0x94, 0x97, 0xF0, 0x9F, 0x94, 0x97,
                                     0xF0, 0x9F, 0x94, 0x97],
                  readable = True, writable = True, fault_after = None\<rparr>)
     = Inr \<lparr>original_length = 3, new_length = 279, difference = 276\<rparr>
   \<and> length [0xF0, 0x9F, 0x94, 0x97, 0xF0, 0x9F, 0x94, 0x97, 0xF0, 0x9F, 0x94, 0x97 :: byte] = 12
   \<and> utf8_encode_codepoint 0x1F517 = Some [0xF0, 0x9F, 0x94, 0x97]
   \<and> length (lit ''<img src="icons/misc/link.svg" alt="" width="14" height="14" style="vertical-align: middle;">'') = 93
   \<and> (276 :: int) \<noteq> 3 * (93 - 4)\<close>
  by (simp add: script_links utf8_encode_codepoint_def length_lit)

text \<open>
  What the script writes can always be encoded: decoding yields Unicode scalar values,
  and the newline translation and the pass add ASCII code points and the theme symbol only.
\<close>

lemma utf8_decode_scalar:
  "utf8_decode bytes = Some cs \<Longrightarrow>
   \<forall>c \<in> set cs. c \<le> 0x10FFFF \<and> \<not> (0xD800 \<le> c \<and> c \<le> 0xDFFF)"
proof (induction "length bytes" arbitrary: bytes cs rule: less_induct)
  case less
  show ?case
  proof (cases bytes)
    case Nil
    with less.prems show ?thesis by simp
  next
    case (Cons b0 bs)
    have six: "low6 b < 64" for b by (simp add: low6_def)
    consider (one) "b0 < 0x80"
      | (two) "\<not> b0 < 0x80" "0xC2 \<le> b0 \<and> b0 \<le> 0xDF"
      | (three) "\<not> b0 < 0x80" "\<not> (0xC2 \<le> b0 \<and> b0 \<le> 0xDF)" "0xE0 \<le> b0 \<and> b0 \<le> 0xEF"
      | (four) "\<not> b0 < 0x80" "\<not> (0xC2 \<le> b0 \<and> b0 \<le> 0xDF)" "\<not> (0xE0 \<le> b0 \<and> b0 \<le> 0xEF)"
          "0xF0 \<le> b0 \<and> b0 \<le> 0xF4"
      | (none) "\<not> b0 < 0x80" "\<not> (0xC2 \<le> b0 \<and> b0 \<le> 0xDF)" "\<not> (0xE0 \<le> b0 \<and> b0 \<le> 0xEF)"
          "\<not> (0xF0 \<le> b0 \<and> b0 \<le> 0xF4)"
      by blast
    then show ?thesis
    proof cases
      case one
      with less.prems Cons obtain r where r: "utf8_decode bs = Some r" "cs = unat b0 # r"
        by auto
      have "unat b0 < 128" using one by (simp add: word_less_nat_alt)
      moreover have "\<forall>c \<in> set r. c \<le> 0x10FFFF \<and> \<not> (0xD800 \<le> c \<and> c \<le> 0xDFFF)"
        using less.hyps[of bs r] r(1) Cons by simp
      ultimately show ?thesis using r(2) by auto
    next
      case two
      with less.prems Cons obtain b1 rest r where r: "bs = b1 # rest"
        "utf8_decode rest = Some r" "cs = ((unat b0 - 0xC0) * 64 + low6 b1) # r"
        by (auto split: list.splits if_splits)
      have "unat b0 \<le> 223" using two(2) by (simp add: word_le_nat_alt)
      then have "(unat b0 - 0xC0) * 64 + low6 b1 < 0x800" using six[of b1] by linarith
      moreover have "\<forall>c \<in> set r. c \<le> 0x10FFFF \<and> \<not> (0xD800 \<le> c \<and> c \<le> 0xDFFF)"
        using less.hyps[of rest r] r(1,2) Cons by simp
      ultimately show ?thesis using r(3) by auto
    next
      case three
      with less.prems Cons obtain b1 b2 rest r where r: "bs = b1 # b2 # rest"
        "utf8_decode rest = Some r"
        "cs = ((unat b0 - 0xE0) * 4096 + low6 b1 * 64 + low6 b2) # r"
        "\<not> (0xD800 \<le> (unat b0 - 0xE0) * 4096 + low6 b1 * 64 + low6 b2
            \<and> (unat b0 - 0xE0) * 4096 + low6 b1 * 64 + low6 b2 \<le> 0xDFFF)"
        by (auto simp: Let_def split: list.splits if_splits)
      have "unat b0 \<le> 239" using three(3) by (simp add: word_le_nat_alt)
      then have "(unat b0 - 0xE0) * 4096 + low6 b1 * 64 + low6 b2 \<le> 0x10FFFF"
        using six[of b1] six[of b2] by linarith
      moreover have "\<forall>c \<in> set r. c \<le> 0x10FFFF \<and> \<not> (0xD800 \<le> c \<and> c \<le> 0xDFFF)"
        using less.hyps[of rest r] r(1,2) Cons by simp
      ultimately show ?thesis using r(3,4) by auto
    next
      case four
      with less.prems Cons obtain b1 b2 b3 rest r where r: "bs = b1 # b2 # b3 # rest"
        "utf8_decode rest = Some r"
        "cs = ((unat b0 - 0xF0) * 262144 + low6 b1 * 4096 + low6 b2 * 64 + low6 b3) # r"
        "0x10000 \<le> (unat b0 - 0xF0) * 262144 + low6 b1 * 4096 + low6 b2 * 64 + low6 b3"
        "(unat b0 - 0xF0) * 262144 + low6 b1 * 4096 + low6 b2 * 64 + low6 b3 \<le> 0x10FFFF"
        by (auto simp: Let_def split: list.splits if_splits)
      have "\<forall>c \<in> set r. c \<le> 0x10FFFF \<and> \<not> (0xD800 \<le> c \<and> c \<le> 0xDFFF)"
        using less.hyps[of rest r] r(1,2) Cons by simp
      then show ?thesis using r(3,4,5) by auto
    next
      case none
      with less.prems Cons show ?thesis by simp
    qed
  qed
qed

lemma universal_newlines_set: "set (universal_newlines cs) \<subseteq> insert 10 (set cs)"
  by (induction cs rule: universal_newlines.induct) auto

lemma set_str_replace:
  assumes "old \<noteq> []"
  shows "set (str_replace s old new) \<subseteq> set s \<union> set new"
proof (induction "length s" arbitrary: s rule: less_induct)
  case less
  show ?case
  proof (cases rule: str_cases[where s=s and old=old])
    case Nil
    with assms show ?thesis by (simp add: str_replace_empty)
  next
    case (Match t)
    have "set (str_replace t old new) \<subseteq> set t \<union> set new"
      using less.hyps[of t] Match assms by simp
    with Match assms show ?thesis by (auto simp: str_replace_prefix)
  next
    case (Step x xs)
    have "set (str_replace xs old new) \<subseteq> set xs \<union> set new"
      using less.hyps[of xs] Step by simp
    with Step assms show ?thesis by (auto simp: str_replace_step)
  qed
qed

lemma set_pass:
  assumes "c \<in> set (foldl substitute x rs)" "set rs \<subseteq> set substitutions"
  shows "c \<in> set x \<or> c < 128 \<or> c = 0x1F3AD"
  using assms
proof (induction rs arbitrary: x)
  case Nil
  then show ?case by simp
next
  case (Cons r rs)
  obtain old new where r: "r = (old, new)" by (cases r)
  with Cons.prems(2) have m: "(old, new) \<in> set substitutions" by simp
  then have "old \<noteq> []" and p: "\<forall>c \<in> set new. c < 128 \<or> c = 0x1F3AD"
    using substitutions_texts by blast+
  then have s: "set (str_replace x old new) \<subseteq> set x \<union> set new"
    by (intro set_str_replace)
  from Cons.prems have "c \<in> set (str_replace x old new) \<or> c < 128 \<or> c = 0x1F3AD"
    using Cons.IH[of "str_replace x old new"] by (simp add: r substitute_pair)
  with s p show ?case by blast
qed

lemma utf8_encode_scalar:
  "\<forall>c \<in> set x. c \<le> 0x10FFFF \<and> \<not> (0xD800 \<le> c \<and> c \<le> 0xDFFF) \<Longrightarrow>
   \<exists>bytes. utf8_encode x = Some bytes"
  by (induction x) (auto simp: utf8_encode_codepoint_def)

lemma script_encodes:
  assumes "read_file fs = Inr content" "transform content = Some out"
  shows "\<exists>bytes. utf8_encode out = Some bytes"
proof (rule utf8_encode_scalar, rule ballI)
  fix c
  assume c: "c \<in> set out"
  from assms(1) obtain bytes cs where d: "utf8_decode bytes = Some cs"
    "content = universal_newlines cs"
    by (auto simp: read_file_def split: option.splits if_splits)
  from assms(2) have "out = foldl substitute content substitutions"
    by (simp add: transform_substitutions)
  with c have "c \<in> set content \<or> c < 128 \<or> c = 0x1F3AD"
    using set_pass[of c content substitutions] by simp
  then have "c \<in> set cs \<or> c < 128 \<or> c = 0x1F3AD"
    using d(2) universal_newlines_set[of cs] by auto
  then show "c \<le> 0x10FFFF \<and> \<not> (0xD800 \<le> c \<and> c \<le> 0xDFFF)"
    using utf8_decode_scalar[OF d(1)] by auto
qed

lemma script_changes_full:
  assumes "snd (script fs) \<noteq> fs"
  shows "\<exists>content out bytes. read_file fs = Inr content \<and> transform content = Some out
           \<and> writable fs \<and> utf8_encode out = Some bytes
           \<and> (case fault_after fs of
                 None \<Rightarrow> (\<exists>r. script fs = (Inr r, fs\<lparr>script_js := Some bytes\<rparr>))
               | Some n \<Rightarrow>
                   if n < length bytes
                   then script fs = (Inl OSError, fs\<lparr>script_js := Some (take n bytes)\<rparr>)
                   else (\<exists>r. script fs = (Inr r, fs\<lparr>script_js := Some bytes\<rparr>)))"
proof -
  from assms obtain content out where a: "read_file fs = Inr content"
    "transform content = Some out" "writable fs"
    using script_changes by blast
  then obtain bytes where b: "utf8_encode out = Some bytes"
    using script_encodes by blast
  have "case fault_after fs of
          None \<Rightarrow> (\<exists>r. script fs = (Inr r, fs\<lparr>script_js := Some bytes\<rparr>))
        | Some n \<Rightarrow>
            if n < length bytes
            then script fs = (Inl OSError, fs\<lparr>script_js := Some (take n bytes)\<rparr>)
            else (\<exists>r. script fs = (Inr r, fs\<lparr>script_js := Some bytes\<rparr>))"
    by (simp add: script_def a b write_file_def Let_def split: option.splits)
  with a b show ?thesis by blast
qed

text \<open>
  Claim C8, as the code has it. When the file is absent, unreadable or not valid UTF-8,
  reading fails and the script ends with that error and the file system as it was.
  Whenever a run changes the file system, the read and the whole pass have succeeded
  before, and the change is that of one write of the whole encoded buffer: if the device
  does not fail, the file holds the whole buffer and the script reports; if the device
  fails after \<open>n\<close> bytes, the script ends with \<open>OSError\<close> and the file holds the first \<open>n\<close>
  bytes of the buffer.
\<close>

theorem no_mutation_on_read_failure:
  "((script_js fs = None \<or> \<not> readable fs
       \<or> (\<exists>bytes. script_js fs = Some bytes \<and> utf8_decode bytes = None))
      \<longrightarrow> (\<exists>e. read_file fs = Inl e \<and> script fs = (Inl e, fs)))
   \<and> (snd (script fs) \<noteq> fs
      \<longrightarrow> (\<exists>content out bytes. read_file fs = Inr content \<and> transform content = Some out
             \<and> writable fs \<and> utf8_encode out = Some bytes
             \<and> (case fault_after fs of
                   None \<Rightarrow> (\<exists>r. script fs = (Inr r, fs\<lparr>script_js := Some bytes\<rparr>))
                 | Some n \<Rightarrow>
                     if n < length bytes
                     then script fs = (Inl OSError, fs\<lparr>script_js := Some (take n bytes)\<rparr>)
                     else (\<exists>r. script fs = (Inr r, fs\<lparr>script_js := Some bytes\<rparr>)))))"
proof (intro conjI impI)
  assume "script_js fs = None \<or> \<not> readable fs
     \<or> (\<exists>bytes. script_js fs = Some bytes \<and> utf8_decode bytes = None)"
  then have "\<exists>e. read_file fs = Inl e"
    by (cases "script_js fs") (auto simp: read_file_def)
  then show "\<exists>e. read_file fs = Inl e \<and> script fs = (Inl e, fs)"
    using script_read_error by blast
next
  assume "snd (script fs) \<noteq> fs"
  then show "\<exists>content out bytes. read_file fs = Inr content \<and> transform content = Some out
             \<and> writable fs \<and> utf8_encode out = Some bytes
             \<and> (case fault_after fs of
                   None \<Rightarrow> (\<exists>r. script fs = (Inr r, fs\<lparr>script_js := Some bytes\<rparr>))
                 | Some n \<Rightarrow>
                     if n < length bytes
                     then script fs = (Inl OSError, fs\<lparr>script_js := Some (take n bytes)\<rparr>)
                     else (\<exists>r. script fs = (Inr r, fs\<lparr>script_js := Some bytes\<rparr>)))"
    by (rule script_changes_full)
qed

theorem no_mutation_on_read_failure_witness:
  "script \<lparr>script_js = Some [0xFF], readable = True, writable = True, fault_after = None\<rparr>
     = (Inl UnicodeDecodeError,
        \<lparr>script_js = Some [0xFF], readable = True, writable = True, fault_after = None\<rparr>)
   \<and> (\<exists>content out bytes r.
        read_file \<lparr>script_js = Some [0xF0, 0x9F, 0x94, 0x97, 0xF0, 0x9F, 0x94, 0x97,
                                     0xF0, 0x9F, 0x94, 0x97],
                   readable = True, writable = True, fault_after = None\<rparr> = Inr content
        \<and> transform content = Some out \<and> utf8_encode out = Some bytes
        \<and> script \<lparr>script_js = Some [0xF0, 0x9F, 0x94, 0x97, 0xF0, 0x9F, 0x94, 0x97,
                                       0xF0, 0x9F, 0x94, 0x97],
                     readable = True, writable = True, fault_after = None\<rparr>
          = (Inr r, \<lparr>script_js = Some bytes, readable = True, writable = True,
                     fault_after = None\<rparr>))"
proof -
  let ?bad = "\<lparr>script_js = Some [0xFF], readable = True, writable = True, fault_after = None\<rparr>"
  let ?fs = "\<lparr>script_js = Some [0xF0, 0x9F, 0x94, 0x97, 0xF0, 0x9F, 0x94, 0x97,
                                 0xF0, 0x9F, 0x94, 0x97],
               readable = True, writable = True, fault_after = None\<rparr>"
  have "\<exists>bytes. script_js ?bad = Some bytes \<and> utf8_decode bytes = None"
    by simp
  then have "\<exists>e. read_file ?bad = Inl e \<and> script ?bad = (Inl e, ?bad)"
    using no_mutation_on_read_failure[of ?bad] by blast
  moreover have "read_file ?bad = Inl UnicodeDecodeError"
    by (simp add: read_file_def)
  ultimately have 1: "script ?bad = (Inl UnicodeDecodeError, ?bad)" by auto
  have "snd (script ?fs) \<noteq> ?fs" by (rule script_links_state)
  then obtain content out bytes where
    "read_file ?fs = Inr content" "transform content = Some out" "utf8_encode out = Some bytes"
    "case fault_after ?fs of
       None \<Rightarrow> (\<exists>r. script ?fs = (Inr r, ?fs\<lparr>script_js := Some bytes\<rparr>))
     | Some n \<Rightarrow>
         if n < length bytes
         then script ?fs = (Inl OSError, ?fs\<lparr>script_js := Some (take n bytes)\<rparr>)
         else (\<exists>r. script ?fs = (Inr r, ?fs\<lparr>script_js := Some bytes\<rparr>))"
    using no_mutation_on_read_failure[of ?fs] by blast
  then have 2: "\<exists>content out bytes r. read_file ?fs = Inr content \<and> transform content = Some out
      \<and> utf8_encode out = Some bytes
      \<and> script ?fs = (Inr r, \<lparr>script_js = Some bytes, readable = True, writable = True,
                               fault_after = None\<rparr>)"
    by auto
  from 1 2 show ?thesis by blast
qed

text \<open>
  Claim C8 as stated fails where it says that a write is one overwrite by the full buffer.
  On a file of three link symbols, with a device that fails after four bytes, the read
  and the pass succeed, the script ends with \<open>OSError\<close>, and the file holds the four bytes
  \<open><img\<close>: neither its twelve bytes of before nor the 279 bytes of the buffer.
\<close>

theorem no_mutation_on_read_failure_counterexample:
  \<open>script \<lparr>script_js = Some [0xF0, 0x9F, 0x94, 0x97, 0xF0, 0x9F, 0x94, 0x97,
                                0xF0, 0x9F, 0x94, 0x97],
             readable = True, writable = True, fault_after = Some 4\<rparr>
     = (Inl OSError,
        \<lparr>script_js = Some [0x3C, 0x69, 0x6D, 0x67], readable = True, writable = True,
         fault_after = Some 4\<rparr>)
   \<and> read_file \<lparr>script_js = Some [0xF0, 0x9F, 0x94, 0x97, 0xF0, 0x9F, 0x94, 0x97,
                                     0xF0, 0x9F, 0x94, 0x97],
                  readable = True, writable = True, fault_after = Some 4\<rparr>
     = Inr [0x1F517, 0x1F517, 0x1F517]
   \<and> transform [0x1F517, 0x1F517, 0x1F517]
     = Some (lit ''<img src="icons/misc/link.svg" alt="" width="14" height="14" style="vertical-align: middle;">''
        @ lit ''<img src="icons/misc/link.svg" alt="" width="14" height="14" style="vertical-align: middle;">''
        @ lit ''<img src="icons/misc/link.svg" alt="" width="14" height="14" style="vertical-align: middle;">'')
   \<and> length (lit ''<img src="icons/misc/link.svg" alt="" width="14" height="14" style="vertical-align: middle;">''
        @ lit ''<img src="icons/misc/link.svg" alt="" width="14" height="14" style="vertical-align: middle;">''
        @ lit ''<img src="icons/misc/link.svg" alt="" width="14" height="14" style="vertical-align: middle;">'')
     = 279\<close>
proof -
  let ?fs = "\<lparr>script_js = Some [0xF0, 0x9F, 0x94, 0x97, 0xF0, 0x9F, 0x94, 0x97,
                                 0xF0, 0x9F, 0x94, 0x97],
               readable = True, writable = True, fault_after = Some 4\<rparr>"
  let ?m = \<open>lit ''<img src="icons/misc/link.svg" alt="" width="14" height="14" style="vertical-align: middle;">''\<close>
  have rd: "read_file ?fs = Inr [0x1F517, 0x1F517, 0x1F517]"
    by (simp add: read_file_def decode_links del: utf8_decode.simps)
  have "list_all (\<lambda>c. c < 128) ?m" by (simp add: lit_def)
  then have "\<forall>c \<in> set (?m @ ?m @ ?m). c < 128" by (auto simp: list_all_iff)
  then have enc: "utf8_encode (?m @ ?m @ ?m) = Some (map of_nat (?m @ ?m @ ?m))"
    by (rule utf8_encode_ascii)
  have tk: "take 4 (map of_nat (?m @ ?m @ ?m)) = [0x3C, 0x69, 0x6D, 0x67 :: byte]"
    by (simp add: lit_def)
  have len: "length (?m @ ?m @ ?m) = 279" by (simp add: length_lit)
  have "script ?fs = (Inl OSError, ?fs\<lparr>script_js := Some [0x3C, 0x69, 0x6D, 0x67]\<rparr>)"
    by (simp add: script_def rd transform_links write_file_def enc tk length_lit
        del: map_append)
  then show ?thesis using rd transform_links len by simp
qed

text \<open>
  Claim C10. Every replacement text of the pass is longer than the text it replaces: the
  entries of the table, the four \<open>re.sub\<close> calls and the catch-all. So the pass never makes a
  document shorter, and the difference that the script reports is never negative.
\<close>

theorem pass_never_shrinks:
  "list_all (\<lambda>(emoji, svg). length emoji < length svg) replacements
   \<and> length icon_pattern < length icon_repl
   \<and> length mechanic_pattern < length mechanic_repl
   \<and> length instance_pattern < length instance_repl
   \<and> length typeIcon_pattern < length typeIcon_repl
   \<and> length gear < length mechanics_svg
   \<and> (\<exists>out. transform content = Some out \<and> length content \<le> length out)
   \<and> (script fs = (Inr r, fs') \<longrightarrow> original_length r \<le> new_length r \<and> 0 \<le> difference r)"
proof -
  have "list_all (\<lambda>(emoji, svg). length emoji < length svg) replacements"
    by (simp add: replacements_def length_lit)
  moreover have "length icon_pattern < length icon_repl"
    "length mechanic_pattern < length mechanic_repl"
    "length instance_pattern < length instance_repl"
    "length typeIcon_pattern < length typeIcon_repl"
    "length gear < length mechanics_svg"
    by (simp_all add: icon_pattern_def icon_repl_def mechanic_pattern_def mechanic_repl_def
        instance_pattern_def instance_repl_def typeIcon_pattern_def typeIcon_repl_def
        mechanics_raw_def mechanics_svg_def squote_def backslash_def gear_def theme_def
        length_lit)
  moreover have "original_length r \<le> new_length r \<and> 0 \<le> difference r"
    if "script fs = (Inr r, fs')"
  proof -
    from that obtain c out where "transform c = Some out" "original_length r = length c"
      "new_length r = length out" "difference r = int (length out) - int (length c)"
      using script_report by blast
    moreover from this have "length c \<le> length out"
      using length_transform[of c] by simp
    ultimately show ?thesis by simp
  qed
  ultimately show ?thesis using length_transform[of content] by blast
qed

theorem pass_never_shrinks_witness:
  "fst (script \<lparr>script_js = Some [0xF0, 0x9F, 0x94, 0x97, 0xF0, 0x9F, 0x94, 0x97,
                                    0xF0, 0x9F, 0x94, 0x97],
                 readable = True, writable = True, fault_after = None\<rparr>)
     = Inr \<lparr>original_length = 3, new_length = 279, difference = 276\<rparr>
   \<and> original_length \<lparr>original_length = 3, new_length = 279, difference = 276\<rparr>
       \<le> new_length \<lparr>original_length = 3, new_length = 279, difference = 276\<rparr>
   \<and> 0 \<le> difference \<lparr>original_length = 3, new_length = 279, difference = 276\<rparr>"
proof -
  let ?fs = "\<lparr>script_js = Some [0xF0, 0x9F, 0x94, 0x97, 0xF0, 0x9F, 0x94, 0x97,
                                 0xF0, 0x9F, 0x94, 0x97],
               readable = True, writable = True, fault_after = None\<rparr>"
  let ?r = "\<lparr>original_length = 3, new_length = 279, difference = 276\<rparr>"
  have "script ?fs = (Inr ?r, snd (script ?fs))"
    using script_links by (metis prod.collapse)
  then have "original_length ?r \<le> new_length ?r \<and> 0 \<le> difference ?r"
    using pass_never_shrinks[of "[]" ?fs ?r "snd (script ?fs)"] by blast
  then show ?thesis using script_links by blast
qed

section \<open>The constrained rules and their raw templates\<close>

text \<open>
  Claim C3. On the input \<open>icon: '<gear>'\<close> the pass keeps the key and both quotes, and on
  \<open>mechanic: '<gear> Mechanics'\<close> it keeps the quotes and the word; what it puts in place of
  the gear is the markup of the raw template, with a backslash before each double quote,
  which is not the markup of the gear.
\<close>

theorem constrained_inputs_get_raw_markup:
  "transform (lit ''icon: '' @ squote @ gear @ squote)
     = Some (lit ''icon: '' @ squote @ mechanics_raw @ squote)
   \<and> transform (lit ''mechanic: '' @ squote @ gear @ lit '' Mechanics'' @ squote)
     = Some (lit ''mechanic: '' @ squote @ mechanics_raw @ lit '' Mechanics'' @ squote)
   \<and> mechanics_raw \<noteq> mechanics_svg"
  using transform_icon transform_mechanic mechanics_raw_differs
  unfolding icon_pattern_def icon_repl_def mechanic_pattern_def mechanic_repl_def
  by blast

text \<open>
  Claim C4. On the input \<open>const typeIcon = cls.classType === 'character' ? '<theme>' : '<gear>';\<close>
  the pass leaves everything up to the second branch as it is, the theme symbol and its
  quotes included, and replaces the gear of the second branch; the text it puts there is
  the markup of the raw template, with its backslashes, not the markup of the gear.
\<close>

theorem typeIcon_input_gets_raw_markup:
  "transform (lit ''const typeIcon = cls.classType === '' @ squote @ lit ''character'' @ squote @
       lit '' ? '' @ squote @ theme @ squote @ lit '' : '' @ squote @ gear @ squote @ lit '';'')
     = Some (lit ''const typeIcon = cls.classType === '' @ squote @ lit ''character'' @ squote @
       lit '' ? '' @ squote @ theme @ squote @ lit '' : '' @ squote @ mechanics_raw @ squote @
       lit '';'')
   \<and> length mechanics_raw = length mechanics_svg + 10"
proof
  show "transform (lit ''const typeIcon = cls.classType === '' @ squote @ lit ''character'' @
       squote @ lit '' ? '' @ squote @ theme @ squote @ lit '' : '' @ squote @ gear @ squote @
       lit '';'')
     = Some (lit ''const typeIcon = cls.classType === '' @ squote @ lit ''character'' @ squote @
       lit '' ? '' @ squote @ theme @ squote @ lit '' : '' @ squote @ mechanics_raw @ squote @
       lit '';'')"
    using transform_typeIcon unfolding typeIcon_literal_def typeIcon_repl_def .
  show "length mechanics_raw = length mechanics_svg + 10"
    by (simp add: mechanics_raw_def mechanics_svg_def backslash_def length_lit)
qed

text \<open>
  Claim C9. Each of the four \<open>re.sub\<close> calls is a replacement of one literal by one text,
  but the text is the raw template as written: a backslash before a double quote is not
  an escape that \<open>parse_template\<close> resolves, so both code points are inserted, and the
  markup differs from the one of the catch-all.
\<close>

theorem re_sub_inserts_raw_template:
  "re_sub icon_pattern icon_repl content
     = Some (str_replace content (lit ''icon: '' @ squote @ gear @ squote)
               (lit ''icon: '' @ squote @ mechanics_raw @ squote))
   \<and> re_sub mechanic_pattern mechanic_repl content
     = Some (str_replace content (lit ''mechanic: '' @ squote @ gear @ lit '' Mechanics'' @ squote)
               (lit ''mechanic: '' @ squote @ mechanics_raw @ lit '' Mechanics'' @ squote))
   \<and> re_sub instance_pattern instance_repl content
     = Some (str_replace content (lit '': '' @ squote @ gear @ lit '' Instance</span>'' @ squote)
               (lit '': '' @ squote @ mechanics_raw @ lit '' Instance</span>'' @ squote))
   \<and> re_sub typeIcon_pattern typeIcon_repl content
     = Some (str_replace content typeIcon_literal
               (lit ''const typeIcon = cls.classType === '' @ squote @ lit ''character'' @ squote @
                lit '' ? '' @ squote @ theme @ squote @ lit '' : '' @ squote @ mechanics_raw @
                squote @ lit '';''))
   \<and> parse_template (backslash @ lit ''\"'') = Some (backslash @ lit ''\"'')
   \<and> mechanics_raw \<noteq> mechanics_svg"
proof -
  have "parse_template (backslash @ lit ''\"'') = Some (backslash @ lit ''\"'')"
    by (simp add: backslash_def lit_def ascii_alnum_def)
  moreover have "re_sub icon_pattern icon_repl content
      = Some (str_replace content icon_pattern icon_repl)"
    by (simp add: re_sub_def re_literal_icon parse_template_icon)
  moreover have "re_sub mechanic_pattern mechanic_repl content
      = Some (str_replace content mechanic_pattern mechanic_repl)"
    by (simp add: re_sub_def re_literal_mechanic parse_template_mechanic)
  moreover have "re_sub instance_pattern instance_repl content
      = Some (str_replace content instance_pattern instance_repl)"
    by (simp add: re_sub_def re_literal_instance parse_template_instance)
  moreover have "re_sub typeIcon_pattern typeIcon_repl content
      = Some (str_replace content typeIcon_literal typeIcon_repl)"
    by (simp add: re_sub_def re_literal_typeIcon parse_template_typeIcon)
  ultimately show ?thesis
    using mechanics_raw_differs
    unfolding icon_pattern_def icon_repl_def mechanic_pattern_def mechanic_repl_def
      instance_pattern_def instance_repl_def typeIcon_repl_def
    by blast
qed

section \<open>Counting markup texts and symbols through the table\<close>

lemma replacements_shape_all: "list_all (\<lambda>(emoji, svg). symbol emoji \<and> tag svg) replacements"
  by (simp add: replacements_def symbol_def tag_def lit_def)

lemma replacements_shape:
  "(emoji, svg) \<in> set replacements \<Longrightarrow> symbol emoji \<and> tag svg"
  using replacements_shape_all by (auto simp: list_all_iff)

lemma mechanics_svg_tag: "tag mechanics_svg"
  by (simp add: mechanics_svg_def tag_def lit_def)

lemma gear_symbol: "symbol gear"
  by (simp add: gear_def symbol_def)

lemma replacements_distinct_heads: "distinct (map (hd \<circ> fst) replacements)"
  by (simp add: replacements_def)

lemma tag_bodyD:
  "tag_body cs \<Longrightarrow> \<exists>b. cs = b @ [62] \<and> (\<forall>c \<in> set b. c < 128 \<and> c \<noteq> 60 \<and> c \<noteq> 62 \<and> c \<noteq> 39)"
proof (induction cs rule: tag_body.induct)
  case 1
  then show ?case by simp
next
  case (2 c)
  then show ?case by simp
next
  case (3 c d cs)
  from "3.prems" have c: "c < 128 \<and> c \<noteq> 60 \<and> c \<noteq> 62 \<and> c \<noteq> 39" and "tag_body (d # cs)"
    by simp_all
  with "3.IH" obtain b where "d # cs = b @ [62]"
    "\<forall>c \<in> set b. c < 128 \<and> c \<noteq> 60 \<and> c \<noteq> 62 \<and> c \<noteq> 39"
    by auto
  with c show ?case by (intro exI[of _ "c # b"]) simp
qed

lemma tagE:
  assumes "tag m"
  obtains b ms where "m = 60 # b @ [62]"
    "\<forall>c \<in> set b. c < 128 \<and> c \<noteq> 60 \<and> c \<noteq> 62 \<and> c \<noteq> 39"
    \<open>m = lit ''<img src="'' @ ms\<close>
proof -
  from assms obtain ms where ms: \<open>m = lit ''<img src="'' @ ms\<close>
    by (auto simp: tag_def prefix_def)
  then have hd: "m = 60 # tl m" by (simp add: lit_def)
  from assms obtain b where "tl m = b @ [62]"
    "\<forall>c \<in> set b. c < 128 \<and> c \<noteq> 60 \<and> c \<noteq> 62 \<and> c \<noteq> 39"
    using tag_bodyD by (auto simp: tag_def)
  with hd ms that show thesis by metis
qed

lemma tag_facts:
  assumes "tag m"
  shows "m \<noteq> []" "hd m = 60" "\<forall>c \<in> set m. c < 128" "60 \<notin> set (tl m)" "39 \<notin> set m"
    "last m = 62" "tl m \<noteq> []" "last (tl m) = 62"
proof -
  from assms obtain b where m: "m = 60 # b @ [62]"
    and b: "\<forall>c \<in> set b. c < 128 \<and> c \<noteq> 60 \<and> c \<noteq> 62 \<and> c \<noteq> 39"
    by (rule tagE)
  show "m \<noteq> []" "hd m = 60" "last m = 62" "tl m \<noteq> []" "last (tl m) = 62"
    by (simp_all add: m)
  show "\<forall>c \<in> set m. c < 128" "60 \<notin> set (tl m)" "39 \<notin> set m"
    using b by (auto simp: m)
qed

lemma symbol_facts:
  assumes "symbol s"
  shows "s \<noteq> []" "128 \<le> hd s" "\<forall>c \<in> set s. 128 \<le> c" "set s \<subseteq> {hd s, 0xFE0F}"
    "set (tl s) \<subseteq> {0xFE0F}" "hd s \<noteq> 0xFE0F"
proof -
  from assms obtain a r where s: "s = a # r" "128 \<le> a" "a \<noteq> 0xFE0F" "r = [] \<or> r = [0xFE0F]"
    by (cases s) (auto simp: symbol_def)
  show "s \<noteq> []" "128 \<le> hd s" "hd s \<noteq> 0xFE0F"
    using s by simp_all
  show "\<forall>c \<in> set s. 128 \<le> c" "set s \<subseteq> {hd s, 0xFE0F}" "set (tl s) \<subseteq> {0xFE0F}"
    using s by auto
qed

lemma tag_prefix:
  assumes "tag m" "tag n" "prefix m n"
  shows "m = n"
proof -
  from assms(1) obtain b where m: "m = 60 # b @ [62]" by (auto elim: tagE)
  from assms(2) obtain b' where n: "n = 60 # b' @ [62]" "62 \<notin> set b'"
    by (auto elim!: tagE)
  from assms(3) m n have "prefix (b @ [62]) (b' @ [62])" by simp
  then have "b @ [62] = b' @ [62] \<or> prefix (b @ [62]) b'"
    by (auto simp: prefix_snoc)
  moreover have "\<not> prefix (b @ [62]) b'"
    using n(2) set_mono_prefix by fastforce
  ultimately show ?thesis using m n by simp
qed

lemma tag_not_starts_in_tl:
  assumes "tag m" "tag n"
  shows "\<not> starts_in n (tl m)"
proof -
  have "hd n \<notin> set (tl m)"
    using tag_facts(4)[OF assms(1)] tag_facts(2)[OF assms(2)] by simp
  then show ?thesis using tag_facts(1)[OF assms(2)] by (intro starts_in_hd)
qed

lemma tag_not_starts_in_tag:
  assumes "tag m" "tag n" "m \<noteq> n"
  shows "\<not> starts_in m n"
proof -
  have "\<not> starts_in m (tl n)" by (rule tag_not_starts_in_tl[OF assms(2,1)])
  moreover have "\<not> prefix m n" "\<not> prefix n m"
    using tag_prefix assms by blast+
  moreover have "n = hd n # tl n" using tag_facts(1)[OF assms(2)] by simp
  ultimately show ?thesis by (metis starts_in.simps(2))
qed

lemma tag_symbol_apart:
  assumes "tag m" "symbol s"
  shows "\<not> starts_in m s" "\<not> starts_in s m" "\<not> starts_in m (tl s)"
proof -
  note t = tag_facts[OF assms(1)] and y = symbol_facts[OF assms(2)]
  have "hd m \<notin> set s" using t(2) y(3) by fastforce
  then show "\<not> starts_in m s" using t(1) by (intro starts_in_hd)
  have "hd s \<notin> set m" using t(3) y(2) by fastforce
  then show "\<not> starts_in s m" using y(1) by (intro starts_in_hd)
  have "hd m \<notin> set (tl s)" using t(2) y(5) by fastforce
  then show "\<not> starts_in m (tl s)" using t(1) by (intro starts_in_hd)
qed

lemma symbols_apart:
  assumes "symbol g" "symbol s" "hd g \<noteq> hd s"
  shows "\<not> starts_in g s"
proof -
  have "hd g \<notin> set s"
    using symbol_facts(6)[OF assms(1)] symbol_facts(4)[OF assms(2)] assms(3) by auto
  then show ?thesis using symbol_facts(1)[OF assms(1)] by (intro starts_in_hd)
qed

lemma count_generic_other:
  assumes "symbol s" "tag n" "tag m" "m \<noteq> n"
  shows "str_count (str_replace x s n) m = str_count x m"
  using assms symbol_facts(1) tag_facts(1) tag_symbol_apart tag_not_starts_in_tag
    tag_not_starts_in_tl
  by (intro str_count_str_replace_other) auto

lemma count_generic_same:
  assumes "symbol s" "tag m"
  shows "str_count (str_replace x s m) m = str_count x m + str_count x s"
  using assms symbol_facts(1) tag_facts(1) tag_symbol_apart tag_not_starts_in_tl
  by (intro str_count_str_replace_same) auto

lemma count_symbol_generic:
  assumes "symbol g" "symbol s" "hd g \<noteq> hd s" "tag n"
  shows "str_count (str_replace x s n) g = str_count x g"
  using assms symbol_facts(1) symbols_apart[of g s] symbols_apart[of s g]
    tag_symbol_apart[of n g]
  by (intro str_count_str_replace_other) auto

lemma count_table:
  assumes "tag m"
  shows "\<forall>(s, n) \<in> set tab. symbol s \<and> tag n \<Longrightarrow> distinct (map (hd \<circ> fst) tab) \<Longrightarrow>
         str_count (foldl substitute x tab) m
         = str_count x m + sum_list (map (\<lambda>(s, n). if n = m then str_count x s else 0) tab)"
proof (induction tab arbitrary: x)
  case Nil
  show ?case by simp
next
  case (Cons r rs)
  obtain s n where r: "r = (s, n)" by (cases r)
  let ?x = "str_replace x s n"
  from Cons.prems r have sn: "symbol s" "tag n" by auto
  have m: "str_count ?x m = str_count x m + (if n = m then str_count x s else 0)"
    using count_generic_same[OF sn(1) assms] count_generic_other[OF sn assms] by auto
  have "str_count ?x s' = str_count x s'" if "(s', n') \<in> set rs" for s' n'
  proof -
    from that Cons.prems r have "symbol s'" "hd s' \<noteq> hd s" by force+
    then show ?thesis using count_symbol_generic sn by blast
  qed
  then have "sum_list (map (\<lambda>(s, n). if n = m then str_count ?x s else 0) rs)
             = sum_list (map (\<lambda>(s, n). if n = m then str_count x s else 0) rs)"
    by (intro arg_cong[where f = sum_list] map_cong) auto
  moreover have "str_count (foldl substitute ?x rs) m
         = str_count ?x m + sum_list (map (\<lambda>(s, n). if n = m then str_count ?x s else 0) rs)"
    using Cons.IH[of ?x] Cons.prems by simp
  ultimately have "str_count (foldl substitute ?x rs) m
         = str_count x m + (if n = m then str_count x s else 0)
           + sum_list (map (\<lambda>(s, n). if n = m then str_count x s else 0) rs)"
    using m by presburger
  then show ?case by (simp add: r substitute_pair)
qed

section \<open>Counting markup texts through the constrained rules\<close>

lemma starts_in_blocked:
  assumes "q \<notin> set u" "u \<noteq> [] \<Longrightarrow> last u \<notin> set a"
  shows "\<not> starts_in (a @ q # r) u"
  using assms
proof (induction u)
  case Nil
  show ?case by simp
next
  case (Cons x xs)
  have l: "last (x # xs) \<notin> set a" using Cons.prems(2) by blast
  have m: "last (x # xs) \<in> set (x # xs)" by (rule last_in_set) blast
  have 1: "\<not> prefix (a @ q # r) (x # xs)"
  proof
    assume "prefix (a @ q # r) (x # xs)"
    then have "set (a @ q # r) \<subseteq> set (x # xs)" by (rule set_mono_prefix)
    then have "q \<in> set (x # xs)" by simp
    with Cons.prems(1) show False by blast
  qed
  have 2: "\<not> prefix (x # xs) (a @ q # r)"
  proof
    assume "prefix (x # xs) (a @ q # r)"
    then consider "prefix (x # xs) a" | us where "x # xs = a @ us" "prefix us (q # r)"
      by (auto simp: prefix_append)
    then show False
    proof cases
      case 1
      then have "set (x # xs) \<subseteq> set a" by (rule set_mono_prefix)
      with l m show False by blast
    next
      case 2
      show False
      proof (cases us)
        case Nil
        with 2(1) have "set (x # xs) = set a" by simp
        with l m show False by blast
      next
        case (Cons y ys)
        with 2(2) have "y = q" by simp
        with Cons have "q \<in> set (a @ us)" by simp
        with 2(1) Cons.prems(1) show False by metis
      qed
    qed
  qed
  have 3: "\<not> starts_in (a @ q # r) xs"
  proof (cases xs)
    case Nil
    then show ?thesis by simp
  next
    case (Cons y ys)
    then have "last xs = last (x # xs)" by simp
    with l have "last xs \<notin> set a" by simp
    moreover have "q \<notin> set xs" using Cons.prems(1) by simp
    ultimately show ?thesis using Cons.IH by blast
  qed
  show ?case using 1 2 3 by simp
qed

lemma starts_in_blocked_by:
  assumes "q \<in> set p" "q \<notin> set u" "u \<noteq> [] \<Longrightarrow> last u \<notin> set (takeWhile (\<lambda>c. c \<noteq> q) p)"
  shows "\<not> starts_in p u"
proof -
  define a where "a = takeWhile (\<lambda>c. c \<noteq> q) p"
  define d where "d = dropWhile (\<lambda>c. c \<noteq> q) p"
  have "d \<noteq> []" using assms(1) by (simp add: d_def)
  moreover from this have "hd d = q"
    using hd_dropWhile[of "\<lambda>c. c \<noteq> q" p] by (simp add: d_def)
  ultimately have "d = q # tl d" by (cases d) simp_all
  moreover have "p = a @ d" by (simp add: a_def d_def)
  ultimately have p: "p = a @ q # tl d" by simp
  have "\<not> starts_in (a @ q # tl d) u"
    using assms(2,3) unfolding a_def by (rule starts_in_blocked)
  then show ?thesis by (subst p)
qed

lemma constrained_quotes_all:
  "list_all (\<lambda>(old, new). 39 \<in> set old \<and> 39 \<in> set new
       \<and> 62 \<notin> set (takeWhile (\<lambda>c. c \<noteq> 39) old)
       \<and> 62 \<notin> set (takeWhile (\<lambda>c. c \<noteq> 39) new)) constrained"
  by (simp add: constrained_def icon_pattern_def icon_repl_def mechanic_pattern_def
      mechanic_repl_def instance_pattern_def instance_repl_def typeIcon_literal_def
      typeIcon_repl_def lit_def squote_def)

lemma constrained_tag_start_all:
  \<open>list_all (\<lambda>(old, new). \<not> starts_in (lit ''<img src="'' @ ms) old
       \<and> \<not> starts_in (lit ''<img src="'' @ ms) new) constrained\<close>
  by (simp add: constrained_def icon_pattern_def icon_repl_def mechanic_pattern_def
      mechanic_repl_def instance_pattern_def instance_repl_def typeIcon_literal_def
      typeIcon_repl_def mechanics_raw_def literal_defs)

lemma count_tag_constrained:
  assumes "tag m" "(old, new) \<in> set constrained"
  shows "str_count (str_replace x old new) m = str_count x m"
proof (rule str_count_str_replace_other)
  note t = tag_facts[OF assms(1)]
  from assms(2) have q: "39 \<in> set old" "39 \<in> set new"
    "62 \<notin> set (takeWhile (\<lambda>c. c \<noteq> 39) old)" "62 \<notin> set (takeWhile (\<lambda>c. c \<noteq> 39) new)"
    using constrained_quotes_all by (auto simp: list_all_iff)
  show "old \<noteq> []" using q(1) by auto
  show "m \<noteq> []" by (rule t(1))
  from assms(1) obtain ms where \<open>m = lit ''<img src="'' @ ms\<close> by (auto elim: tagE)
  with assms(2) show "\<not> starts_in m old" "\<not> starts_in m new"
    using constrained_tag_start_all[of ms] by (auto simp: list_all_iff)
  have "last m \<notin> set (takeWhile (\<lambda>c. c \<noteq> 39) old)" using q(3) t(6) by simp
  then show "\<not> starts_in old m"
    using q(1) t(5) by (intro starts_in_blocked_by[of 39])
  have "set (tl m) \<subseteq> set m" using t(1) by (cases m) auto
  then have "39 \<notin> set (tl m)" using t(5) by blast
  moreover have "last (tl m) \<notin> set (takeWhile (\<lambda>c. c \<noteq> 39) new)" using q(4) t(8) by simp
  ultimately show "\<not> starts_in new (tl m)"
    using q(2) by (intro starts_in_blocked_by[of 39])
qed

lemma foldl_substitute_invariant:
  "\<forall>(old, new) \<in> set rs. \<forall>y. f (str_replace y old new) = f y \<Longrightarrow>
   f (foldl substitute x rs) = f x"
  by (induction rs arbitrary: x) (auto simp: substitute_pair)

lemma lit_eq_iff: "lit a = lit b \<longleftrightarrow> a = b"
  by (simp add: lit_def inj_map_eq_map[OF inj_of_char])

lemma replacements_not_mechanics_all:
  "list_all (\<lambda>(emoji, svg). svg \<noteq> mechanics_svg) replacements"
  by (simp add: replacements_def mechanics_svg_def lit_eq_iff)

text \<open>
  The number of occurrences of a markup text of the table after the pass: the number
  before, and one more for each occurrence of a symbol that the table maps to that text.
\<close>

lemma count_markup_pass:
  assumes "(emoji, svg) \<in> set replacements"
  shows "str_count (foldl substitute x substitutions) svg
         = str_count x svg
           + sum_list (map (\<lambda>(s, n). if n = svg then str_count x s else 0) replacements)"
proof -
  have t: "tag svg" using assms replacements_shape by blast
  have ne: "svg \<noteq> mechanics_svg"
    using assms replacements_not_mechanics_all by (auto simp: list_all_iff)
  let ?y = "foldl substitute x replacements"
  let ?z = "foldl substitute ?y constrained"
  have "str_count (substitute ?z (gear, mechanics_svg)) svg = str_count ?z svg"
    using count_generic_other[OF gear_symbol mechanics_svg_tag t ne]
    by (simp add: substitute_pair)
  also have "\<dots> = str_count ?y svg"
    using count_tag_constrained[OF t]
    by (intro foldl_substitute_invariant[where f = "\<lambda>y. str_count y svg"]) auto
  also have "\<dots> = str_count x svg
      + sum_list (map (\<lambda>(s, n). if n = svg then str_count x s else 0) replacements)"
    using replacements_shape replacements_distinct_heads
    by (intro count_table[OF t]) auto
  finally show ?thesis by (simp add: substitutions_def)
qed

section \<open>Counts of markup texts and of skipped symbols\<close>

lemma table_sum_all:
  "list_all (\<lambda>(emoji, svg). \<forall>x.
       sum_list (map (\<lambda>(e, m). if m = svg then str_count x e else 0) replacements)
       = (if emoji = [0x1F4CA] \<or> emoji = [0x1F4C8]
          then str_count x [0x1F4CA] + str_count x [0x1F4C8] else str_count x emoji))
     replacements"
  by (simp add: replacements_def lit_eq_iff)

lemma table_sum:
  assumes "(emoji, svg) \<in> set replacements"
  shows "sum_list (map (\<lambda>(e, m). if m = svg then str_count x e else 0) replacements)
       = (if emoji = [0x1F4CA] \<or> emoji = [0x1F4C8]
          then str_count x [0x1F4CA] + str_count x [0x1F4C8] else str_count x emoji)"
  using assms table_sum_all by (auto simp: list_all_iff)

lemma emoji_count_pass:
  assumes "(emoji, svg) \<in> set replacements"
  shows "str_count (foldl substitute x substitutions) emoji = 0"
  using emoji_removed[OF assms] replacements_nonempty assms
  by (auto simp: str_count_zero_iff)

text \<open>
  Claim C2, as the code has it. For every entry of the table and every input document,
  the output of the pass contains no occurrence of the entry's symbol, and the number of
  occurrences of the entry's markup text grows by the number of occurrences in the input
  of the symbols that the table maps to that text: of the entry's own symbol, except for
  the bar chart and the rising chart, which the table maps to one markup text and whose
  occurrences both count.
\<close>

theorem generic_symbols_replaced:
  assumes "(emoji, svg) \<in> set replacements"
  shows "\<exists>out. transform content = Some out \<and> str_count out emoji = 0
     \<and> str_count out svg
       = str_count content svg
         + (if emoji = [0x1F4CA] \<or> emoji = [0x1F4C8]
            then str_count content [0x1F4CA] + str_count content [0x1F4C8]
            else str_count content emoji)"
  using emoji_count_pass[OF assms] count_markup_pass[OF assms] table_sum[OF assms]
  by (simp add: transform_substitutions)

theorem generic_symbols_replaced_witness:
  \<open>([0x1F517], lit ''<img src="icons/misc/link.svg" alt="" width="14" height="14" style="vertical-align: middle;">'')
      \<in> set replacements
   \<and> (\<exists>out. transform [0x1F517, 0x1F517, 0x1F517] = Some out \<and> str_count out [0x1F517] = 0
      \<and> str_count out (lit ''<img src="icons/misc/link.svg" alt="" width="14" height="14" style="vertical-align: middle;">'') = 3)\<close>
  (is "(?e, ?m) \<in> _ \<and> _")
proof -
  have m: "(?e, ?m) \<in> set replacements" by (simp add: replacements_def)
  have c: "str_count [0x1F517, 0x1F517, 0x1F517] ?m = 0" by (simp add: lit_def)
  have d: "str_count [0x1F517, 0x1F517, 0x1F517] ?e = 3" by simp
  from generic_symbols_replaced[OF m, of "[0x1F517, 0x1F517, 0x1F517]"]
  obtain out where o: "transform [0x1F517, 0x1F517, 0x1F517] = Some out"
    "str_count out ?e = 0"
    "str_count out ?m = str_count [0x1F517, 0x1F517, 0x1F517] ?m
       + str_count [0x1F517, 0x1F517, 0x1F517] ?e"
    by auto
  from o(3) have "str_count out ?m = 3" by (simp only: c d)
  with m o(1,2) show ?thesis by blast
qed

text \<open>
  Claim C2 as stated fails for the entry of the bar chart on an input that holds one
  rising chart: the input has no bar chart and no markup text, yet the output is the
  markup text of the entry, once.
\<close>

theorem generic_symbols_replaced_counterexample:
  \<open>([0x1F4CA], lit ''<img src="icons/misc/chart-line-up.svg" alt="" width="14" height="14" style="vertical-align: middle;">'')
      \<in> set replacements
   \<and> transform [0x1F4C8]
      = Some (lit ''<img src="icons/misc/chart-line-up.svg" alt="" width="14" height="14" style="vertical-align: middle;">'')
   \<and> str_count (lit ''<img src="icons/misc/chart-line-up.svg" alt="" width="14" height="14" style="vertical-align: middle;">'')
        (lit ''<img src="icons/misc/chart-line-up.svg" alt="" width="14" height="14" style="vertical-align: middle;">'')
      \<noteq> str_count [0x1F4C8]
          (lit ''<img src="icons/misc/chart-line-up.svg" alt="" width="14" height="14" style="vertical-align: middle;">'')
        + str_count [0x1F4C8] [0x1F4CA]\<close>
  (is "(?e, ?m) \<in> _ \<and> _ \<and> _")
proof -
  have "(?e, ?m) \<in> set replacements" by (simp add: replacements_def)
  moreover have "?m \<noteq> []" by (simp add: lit_def)
  then have "str_count ?m ?m = 1"
    using str_count_prefix[of ?m "[]"] by (simp add: str_count_empty)
  moreover have "str_count [0x1F4C8] ?m = 0" by (simp add: lit_def)
  moreover have "str_count [0x1F4C8] [0x1F4CA] = 0" by simp
  ultimately show ?thesis using transform_chart by simp
qed

text \<open>The symbols that the script lists as skipped.\<close>

lemma skipped_shape_all:
  "list_all (\<lambda>g. symbol g \<and> hd g \<noteq> 0x2699 \<and> (g = theme \<or> hd g \<noteq> 0x1F3AD)
       \<and> list_all (\<lambda>(e, m). hd e \<noteq> hd g) replacements) skipped"
  by (simp add: skipped_def symbol_def replacements_def theme_def)

lemma constrained_quiet_all:
  "list_all (\<lambda>(old, new). hd old < 128 \<and> hd new < 128
       \<and> list_all (\<lambda>c. c < 128 \<or> c = 0x2699 \<or> c = 0xFE0F \<or> c = 0x1F3AD) old) constrained"
  by (simp add: constrained_def icon_pattern_def icon_repl_def mechanic_pattern_def
      mechanic_repl_def instance_pattern_def instance_repl_def typeIcon_literal_def
      typeIcon_repl_def literal_defs)

lemma theme_absent:
  "list_all (\<lambda>c. c \<noteq> 0x1F3AD) (icon_pattern @ icon_repl @ mechanic_pattern @ mechanic_repl
     @ instance_pattern @ instance_repl)"
  by (simp add: icon_pattern_def icon_repl_def mechanic_pattern_def
      mechanic_repl_def instance_pattern_def instance_repl_def mechanics_raw_def literal_defs)

lemma count_symbol_text:
  assumes "symbol g" "old \<noteq> []" "new \<noteq> []" "hd g \<notin> set old" "hd g \<notin> set new"
    "hd old < 128" "hd new < 128"
  shows "str_count (str_replace x old new) g = str_count x g"
proof (rule str_count_str_replace_other)
  note y = symbol_facts[OF assms(1)]
  show "old \<noteq> []" by fact
  show "g \<noteq> []" by (rule y(1))
  show "\<not> starts_in g old" using y(1) assms(4) by (intro starts_in_hd)
  show "\<not> starts_in g new" using y(1) assms(5) by (intro starts_in_hd)
  have "hd old \<notin> set g" using y(3) assms(6) by fastforce
  then show "\<not> starts_in old g" using assms(2) by (intro starts_in_hd)
  have "set (tl g) \<subseteq> set g" using y(1) by (cases g) auto
  then have "hd new \<notin> set (tl g)" using y(3) assms(7) by fastforce
  then show "\<not> starts_in new (tl g)" using assms(3) by (intro starts_in_hd)
qed

lemma count_theme_typeIcon:
  "str_count (str_replace x typeIcon_literal typeIcon_repl) theme = str_count x theme"
proof -
  have "str_count (str_replace x typeIcon_literal typeIcon_repl) theme
          + 1 * str_count x typeIcon_literal
        = str_count x theme + 1 * str_count x typeIcon_literal"
  proof (rule str_count_str_replace)
    show "typeIcon_literal \<noteq> []" by (simp add: typeIcon_literal_def literal_defs)
    show "theme \<noteq> []" by (simp add: theme_def)
    show "str_count (typeIcon_literal @ t) theme = 1 + str_count t theme" for t
      by (simp add: typeIcon_literal_def literal_defs)
    show "str_count (typeIcon_repl @ t) theme = 1 + str_count t theme" for t
      by (simp add: typeIcon_repl_def mechanics_raw_def literal_defs)
    show "\<not> starts_in typeIcon_literal theme"
      by (simp add: typeIcon_literal_def literal_defs)
    show "\<not> starts_in typeIcon_repl (tl theme)" by (simp add: theme_def)
  qed
  then show ?thesis by simp
qed

lemma count_skipped_step:
  assumes "g \<in> set skipped" "(old, new) \<in> set substitutions"
  shows "str_count (str_replace x old new) g = str_count x g"
proof -
  from assms(1) have g: "symbol g" "hd g \<noteq> 0x2699" "g = theme \<or> hd g \<noteq> 0x1F3AD"
    "\<forall>(e, m) \<in> set replacements. hd e \<noteq> hd g"
    using skipped_shape_all by (auto simp: list_all_iff)
  note y = symbol_facts[OF g(1)]
  from assms(2) consider "(old, new) \<in> set replacements" | "(old, new) \<in> set constrained"
    | "old = gear" "new = mechanics_svg" by (auto simp: substitutions_def)
  then show ?thesis
  proof cases
    case 1
    then have "symbol old" "tag new" "hd g \<noteq> hd old"
      using replacements_shape g(4) by auto
    then show ?thesis using count_symbol_generic[OF g(1)] by blast
  next
    case 3
    have "hd g \<noteq> hd gear" using g(2) by (simp add: gear_def)
    then show ?thesis
      using count_symbol_generic[OF g(1) gear_symbol _ mechanics_svg_tag] 3 by simp
  next
    case 2
    then have "(old, new) \<in> set substitutions" by (simp add: substitutions_def)
    then have ne: "old \<noteq> []" "new \<noteq> []" and plain: "\<forall>c \<in> set new. c < 128 \<or> c = 0x1F3AD"
      using substitutions_texts by blast+
    from 2 have q: "hd old < 128" "hd new < 128"
      "\<forall>c \<in> set old. c < 128 \<or> c = 0x2699 \<or> c = 0xFE0F \<or> c = 0x1F3AD"
      using constrained_quiet_all by (auto simp: list_all_iff)
    show ?thesis
    proof (cases "hd g = 0x1F3AD")
      case False
      have "hd g \<notin> set old" using q(3) y(2,6) g(2) False by fastforce
      moreover have "hd g \<notin> set new" using plain y(2) False by fastforce
      ultimately show ?thesis using count_symbol_text[OF g(1) ne] q by simp
    next
      case True
      with g(3) have th: "g = theme" by simp
      show ?thesis
      proof (cases "old = typeIcon_literal")
        case True
        with 2 have "new = typeIcon_repl"
          by (auto simp: constrained_def icon_pattern_def mechanic_pattern_def
              instance_pattern_def typeIcon_literal_def literal_defs)
        with True th show ?thesis by (simp add: count_theme_typeIcon)
      next
        case False
        with 2 have "set old \<union> set new \<subseteq> set (icon_pattern @ icon_repl @ mechanic_pattern
            @ mechanic_repl @ instance_pattern @ instance_repl)"
          by (auto simp: constrained_def)
        then have "0x1F3AD \<notin> set old" "0x1F3AD \<notin> set new"
          using theme_absent by (auto simp: list_all_iff)
        then show ?thesis using count_symbol_text[OF g(1) ne] q True by simp
      qed
    qed
  qed
qed

text \<open>
  Claim C6. For each of the symbols that the script lists as skipped and every input
  document, the pass succeeds and its output holds as many occurrences of the symbol as
  the input.
\<close>

theorem skipped_symbols_kept:
  assumes "g \<in> set skipped"
  shows "\<exists>out. transform content = Some out \<and> str_count out g = str_count content g"
proof -
  have "str_count (foldl substitute content substitutions) g = str_count content g"
    using count_skipped_step[OF assms]
    by (intro foldl_substitute_invariant[where f = "\<lambda>y. str_count y g"]) auto
  then show ?thesis by (simp add: transform_substitutions)
qed

theorem skipped_symbols_kept_witness:
  "[0x1F3AD] \<in> set skipped
   \<and> (\<exists>out. transform (lit ''const typeIcon = cls.classType === '' @ squote @ lit ''character''
          @ squote @ lit '' ? '' @ squote @ [0x1F3AD] @ squote @ lit '' : '' @ squote @ gear
          @ squote @ lit '';'') = Some out
        \<and> str_count out [0x1F3AD] = 1)"
proof -
  have m: "[0x1F3AD] \<in> set skipped" by (simp add: skipped_def)
  have "str_count (lit ''const typeIcon = cls.classType === '' @ squote @ lit ''character''
          @ squote @ lit '' ? '' @ squote @ [0x1F3AD] @ squote @ lit '' : '' @ squote @ gear
          @ squote @ lit '';'') [0x1F3AD] = 1"
    by (simp add: literal_defs)
  then show ?thesis
    using m skipped_symbols_kept[OF m, of "lit ''const typeIcon = cls.classType === '' @ squote
          @ lit ''character'' @ squote @ lit '' ? '' @ squote @ [0x1F3AD] @ squote @ lit '' : ''
          @ squote @ gear @ squote @ lit '';''"]
    by metis
qed

section \<open>The catch-all\<close>

lemma constrained_pass:
  "do {
     c \<leftarrow> re_sub icon_pattern icon_repl (simple_replacements content);
     c \<leftarrow> re_sub mechanic_pattern mechanic_repl c;
     c \<leftarrow> re_sub instance_pattern instance_repl c;
     re_sub typeIcon_pattern typeIcon_repl c
   } = Some (foldl substitute (foldl substitute content replacements) constrained)"
  by (simp add: re_sub_def re_literal_icon re_literal_mechanic re_literal_instance
      re_literal_typeIcon parse_template_icon parse_template_mechanic parse_template_instance
      parse_template_typeIcon simple_replacements_def
      foldl_apply_replacement[OF replacements_nonempty] constrained_def substitute_pair)

lemma str_replace_gear_split:
  "str_replace (a @ gear @ b) gear new
   = str_replace a gear new @ new @ str_replace b gear new"
proof (induction a rule: induct_list012)
  case 1
  show ?case using str_replace_prefix[of gear b new] by (simp add: gear_def)
next
  case (2 x)
  show ?case using str_replace_prefix[of gear b new] by (simp add: gear_def)
next
  case (3 x y zs)
  then show ?case by (simp add: gear_def)
qed

lemma transform_free_gear:
  "transform (lit ''a'' @ gear @ lit ''b'') = Some (lit ''a'' @ mechanics_svg @ lit ''b'')"
proof -
  let ?x = "lit ''a'' @ gear @ lit ''b''"
  have q: "\<forall>c \<in> set ?x. c < 128 \<or> c = 0x2699 \<or> c = 0xFE0F \<or> c = 0x1F3AD"
    by (simp add: literal_defs)
  have "foldl substitute ?x constrained = ?x"
    by (simp add: constrained_def substitute_pair icon_pattern_def mechanic_pattern_def
        instance_pattern_def typeIcon_literal_def literal_defs)
  moreover have "str_replace ?x gear mechanics_svg = lit ''a'' @ mechanics_svg @ lit ''b''"
    by (simp add: literal_defs)
  ultimately show ?thesis
    by (simp add: transform_split simple_replacements_quiet[OF q] substitute_pair)
qed

text \<open>
  Claim C5. For every input document the table and the four constrained rules give a
  buffer, and the output of the pass is that buffer with every gear replaced by the
  mechanics markup: the output holds no gear, and the markup occurs in it once more for
  each gear that the constrained rules had left. The replacement does not depend on what
  stands around a gear: a gear between any two texts becomes the markup between the
  replaced texts, and in \<open>a<gear>b\<close>, a place that no constrained rule names, the pass puts
  the markup between \<open>a\<close> and \<open>b\<close>.
\<close>

theorem catch_all_replaces_every_gear:
  "\<exists>mid out.
     do {
       c \<leftarrow> re_sub icon_pattern icon_repl (simple_replacements content);
       c \<leftarrow> re_sub mechanic_pattern mechanic_repl c;
       c \<leftarrow> re_sub instance_pattern instance_repl c;
       re_sub typeIcon_pattern typeIcon_repl c
     } = Some mid
     \<and> transform content = Some out
     \<and> out = str_replace mid gear mechanics_svg
     \<and> str_count out gear = 0 \<and> \<not> sublist gear out
     \<and> str_count out mechanics_svg = str_count mid mechanics_svg + str_count mid gear
     \<and> str_replace (a @ gear @ b) gear mechanics_svg
         = str_replace a gear mechanics_svg @ mechanics_svg @ str_replace b gear mechanics_svg
     \<and> transform (lit ''a'' @ gear @ lit ''b'') = Some (lit ''a'' @ mechanics_svg @ lit ''b'')"
proof -
  let ?mid = "foldl substitute (foldl substitute content replacements) constrained"
  let ?out = "str_replace ?mid gear mechanics_svg"
  have t: "transform content = Some ?out"
    by (simp add: transform_split substitute_pair)
  have "\<not> sublist gear (foldl substitute content substitutions)"
    by (rule gear_removed)
  then have n: "\<not> sublist gear ?out"
    by (simp add: substitutions_def substitute_pair)
  moreover have "gear \<noteq> []" by (simp add: gear_def)
  ultimately have z: "str_count ?out gear = 0" by (simp add: str_count_zero_iff)
  have c: "str_count ?out mechanics_svg = str_count ?mid mechanics_svg + str_count ?mid gear"
    by (rule count_generic_same[OF gear_symbol mechanics_svg_tag])
  show ?thesis
    using constrained_pass[of content] t n z c str_replace_gear_split[of a b mechanics_svg]
      transform_free_gear
    by blast
qed

end
